theory Spec2Isabelle
  imports Complex_Main "HOL-Library.Sublist"
begin

section \<open>Hierarchical arc-length refinement of \<open>serial_KLShell_Roof.cpp\<close>\<close>

text \<open>
  The development embeds the continuation and refinement part of \<open>main\<close> in
  \<open>extensions/gsXBraid/examples/serial_KLShell_Roof.cpp\<close> (lines 336--543): the uniform
  walk on level 0, the level-by-level fine corrector, and the queue-driven refinement loop.

  Conventions of the embedding:
  \<^item> \<open>real_t\<close> (a \<open>double\<close>) is modelled by \<^typ>\<open>real\<close> in the control flow of the program
    (exact arithmetic, no rounding); the sign and the zeros of the error estimate are
    studied on a model of double-precision arithmetic, with rounding, infinities and NaN;
  \<^item> \<open>gsVector<real_t>\<close> is a \<^typ>\<open>real list\<close>; \<open>.norm()\<close> is the Euclidean norm;
  \<^item> \<open>index_t\<close> values are natural numbers (every index the program builds is non-negative);
    the places where the source subtracts in \<open>size_t\<close> arithmetic are written out;
  \<^item> \<open>gsArcLengthIterator\<close> is not part of the sources at hand: it is a parameter, a record
    of the member functions that \<open>main\<close> calls, acting on an abstract iterator state;
  \<^item> \<open>GISMO_ERROR\<close>, an exception thrown by \<open>std::vector::at\<close> and an access through
    \<open>operator[]\<close> past the end of a vector all stop the run; they are the three values
    of \<open>error\<close>, returned together with the program state at the moment of the stop.
\<close>

subsection \<open>Vectors and the error estimate\<close>

type_synonym point = "real list \<times> real"

text \<open>A refinement index (a \<open>std::tuple\<close> of three \<open>index_t\<close>): level to compute on,
  level of the start point, index of the start point.\<close>

type_synonym task = "nat \<times> nat \<times> nat"

definition norm_vec :: "real list \<Rightarrow> real" where
  "norm_vec v = sqrt (\<Sum>x\<leftarrow>v. x * x)"

text \<open>Difference of two vectors of the same size (Eigen requires equal sizes).\<close>

definition minus_vec :: "real list \<Rightarrow> real list \<Rightarrow> real list" where
  "minus_vec u v = map2 (-) u v"

text \<open>The expression on the right of lines 437 and 534:
  \<open>( std::abs(Lc - Lf) * Force.norm() + (Uc - Uf).norm() ) / dLi\<close>, in exact arithmetic.
  The same expression in double precision is \<open>errorEstimateFP\<close> below.\<close>

definition errorEstimate ::
  "real list \<Rightarrow> real list \<Rightarrow> real \<Rightarrow> real list \<Rightarrow> real \<Rightarrow> real \<Rightarrow> real" where
  "errorEstimate Force Uc Lc Uf Lf dLi =
     (\<bar>Lc - Lf\<bar> * norm_vec Force + norm_vec (minus_vec Uc Uf)) / dLi"

text \<open>\<open>real_t ptol = 0.05\<close> (line 392).\<close>

definition ptol :: real where
  "ptol = 5 / 100"


subsection \<open>Program state, iterator interface and fatal stops\<close>

text \<open>The member functions of \<open>gsArcLengthIterator\<close> that \<open>main\<close> calls.
  The class itself is outside the sources at hand, so it is a parameter of every definition
  below; \<open>'s\<close> is the iterator's internal state.\<close>

record 's arcLengthIterator =
  step :: "'s \<Rightarrow> 's"
  converged :: "'s \<Rightarrow> bool"
  solutionU :: "'s \<Rightarrow> real list"
  solutionL :: "'s \<Rightarrow> real"
  setSolution :: "real list \<Rightarrow> real \<Rightarrow> 's \<Rightarrow> 's"
  setInitialGuess :: "real list \<Rightarrow> real \<Rightarrow> 's \<Rightarrow> 's"
  resetStep :: "'s \<Rightarrow> 's"
  setLength :: "real \<Rightarrow> 's \<Rightarrow> 's"
  setIndicator :: "real \<Rightarrow> 's \<Rightarrow> 's"

text \<open>The containers declared at lines 358--362 and the iterator object.
  \<open>points\<close> holds raw pointers into \<open>solutions\<close> in the source; the model keeps the
  (level, index) pair each pointer was taken from.\<close>

record 's run_state =
  solutions :: "point list list"
  errors :: "real list list"
  refIdx :: "task list"
  points :: "(nat \<times> nat) list"
  arcLength :: "'s"

text \<open>\<open>NotConverged\<close>: \<open>GISMO_ERROR\<close> after a step that did not converge.
  \<open>OutOfRange\<close>: \<open>std::out_of_range\<close> thrown by \<open>.at(i)\<close>.
  \<open>UndefinedAccess\<close>: \<open>operator[]\<close> applied past the end of a \<open>std::vector\<close>
  (undefined behaviour in C++; the model stops the run there).\<close>

datatype error = NotConverged | OutOfRange | UndefinedAccess

type_synonym 's outcome = "(error \<times> 's run_state) + 's run_state"

definition and_then :: "'s outcome \<Rightarrow> ('s run_state \<Rightarrow> 's outcome) \<Rightarrow> 's outcome" where
  "and_then r f = (case r of Inl a \<Rightarrow> Inl a | Inr st \<Rightarrow> f st)"

text \<open>The state an outcome carries: the final state, or the state at the fatal stop.\<close>

definition final :: "'s outcome \<Rightarrow> 's run_state" where
  "final r = (case r of Inl (e, st) \<Rightarrow> st | Inr st \<Rightarrow> st)"

text \<open>A counted \<open>for\<close> loop whose body may stop the run.\<close>

primrec for_each :: "'a list \<Rightarrow> ('a \<Rightarrow> 's run_state \<Rightarrow> 's outcome) \<Rightarrow> 's run_state \<Rightarrow> 's outcome" where
  "for_each [] body st = Inr st"
| "for_each (x # xs) body st =
     (case body x st of Inl a \<Rightarrow> Inl a | Inr st' \<Rightarrow> for_each xs body st')"

text \<open>\<open>std::vector::resize(n)\<close> with value-initialised new elements \<open>d\<close>.\<close>

definition resize :: "nat \<Rightarrow> 'a \<Rightarrow> 'a list \<Rightarrow> 'a list" where
  "resize n d xs = take n xs @ replicate (n - length xs) d"

text \<open>\<open>U0.setZero(Force.size(),1)\<close> and \<open>L0 = 0.0\<close>: the undeformed solution.\<close>

definition U0 :: "real list \<Rightarrow> real list" where
  "U0 Force = replicate (length Force) 0"

definition L0 :: real where
  "L0 = 0"

text \<open>\<open>solutions[l].at(i)\<close>.\<close>

definition at_point :: "point list list \<Rightarrow> nat \<Rightarrow> nat \<Rightarrow> error + point" where
  "at_point sols l i =
     (if l < length sols
      then (if i < length (sols ! l) then Inr (sols ! l ! i) else Inl OutOfRange)
      else Inl UndefinedAccess)"

text \<open>\<open>solutions[l].push_back(pt)\<close>.\<close>

definition push_point :: "nat \<Rightarrow> point \<Rightarrow> 's run_state \<Rightarrow> 's outcome" where
  "push_point l pt st =
     (if l < length (solutions st)
      then Inr (st\<lparr>solutions := (solutions st)[l := solutions st ! l @ [pt]]\<rparr>)
      else Inl (UndefinedAccess, st))"

text \<open>\<open>errors[l].at(i) = e\<close>.\<close>

definition set_error :: "nat \<Rightarrow> nat \<Rightarrow> real \<Rightarrow> 's run_state \<Rightarrow> 's outcome" where
  "set_error l i e st =
     (if l < length (errors st)
      then (if i < length (errors st ! l)
            then Inr (st\<lparr>errors := (errors st)[l := (errors st ! l)[i := e]]\<rparr>)
            else Inl (OutOfRange, st))
      else Inl (UndefinedAccess, st))"

subsection \<open>One continuation step\<close>

text \<open>The body of the three \<open>k\<close> loops (lines 381--388, 427--434, 521--529):
  \<open>arcLength.step(); if (!arcLength.converged()) GISMO_ERROR(...);
  solutions[l].push_back(std::make_pair(arcLength.solutionU(), arcLength.solutionL()))\<close>.\<close>

definition stepAndStore :: "'s arcLengthIterator \<Rightarrow> nat \<Rightarrow> 's run_state \<Rightarrow> 's outcome" where
  "stepAndStore al l st =
     (let a = step al (arcLength st);
          st1 = st\<lparr>arcLength := a\<rparr>
      in if \<not> converged al a then Inl (NotConverged, st1)
         else push_point l (solutionU al a, solutionL al a) st1)"

text \<open>Line 530: \<open>points.push_back(... &solutions[l].at(solutions.size()-1) ...)\<close>. The index
  handed to \<open>.at\<close> is the number of levels minus one, in \<open>size_t\<close> arithmetic.\<close>

definition recordPoint :: "nat \<Rightarrow> 's run_state \<Rightarrow> 's outcome" where
  "recordPoint l st =
     (let i = length (solutions st) - 1
      in case at_point (solutions st) l i of
           Inl e \<Rightarrow> Inl (e, st)
         | Inr pt \<Rightarrow> Inr (st\<lparr>points := points st @ [(l, i)]\<rparr>))"

subsection \<open>Level 0 (lines 364--389)\<close>

text \<open>\<open>stepi = step * pow(2,0)\<close>; a negative step count runs the loop zero times.\<close>

definition level0 :: "'s arcLengthIterator \<Rightarrow> real list \<Rightarrow> int \<Rightarrow> 's run_state \<Rightarrow> 's outcome" where
  "level0 al Force stp st =
     and_then (push_point 0 (U0 Force, L0) st)
       (for_each [0..<nat (stp * 2 ^ 0)] (\<lambda>k. stepAndStore al 0))"

subsection \<open>Levels 1 to maxLevel (lines 394--462)\<close>

text \<open>The body of the \<open>p\<close> loop, lines 414--447, for \<open>level \<ge> 1\<close>. The test of line 440
  reads back the entry written at line 437.\<close>

definition refineInterval ::
  "'s arcLengthIterator \<Rightarrow> real list \<Rightarrow> real \<Rightarrow> nat \<Rightarrow> nat \<Rightarrow> 's run_state \<Rightarrow> 's outcome" where
  "refineInterval al Force dL level p st =
     (case at_point (solutions st) (level - 1) p of
        Inl e \<Rightarrow> Inl (e, st)
      | Inr (Uold, Lold) \<Rightarrow>
          let st1 = st\<lparr>arcLength := resetStep al (setSolution al Uold Lold (arcLength st))\<rparr>
          in case at_point (solutions st1) (level - 1) (p + 1) of
               Inl e \<Rightarrow> Inl (e, st1)
             | Inr (Uguess, Lguess) \<Rightarrow>
                 let st2 = st1\<lparr>arcLength := setInitialGuess al Uguess Lguess (arcLength st1)\<rparr>
                 in and_then (for_each [0..<2] (\<lambda>k. stepAndStore al level) st2) (\<lambda>st3.
                      case at_point (solutions st3) (level - 1) (p + 1) of
                        Inl e \<Rightarrow> Inl (e, st3)
                      | Inr (Uc, Lc) \<Rightarrow>
                          let e = errorEstimate Force Uc Lc (solutionU al (arcLength st3))
                                    (solutionL al (arcLength st3)) (dL / 2 ^ level)
                          in and_then (set_error (level - 1) p e st3) (\<lambda>st4.
                               if e > ptol
                               then Inr (st4\<lparr>refIdx := refIdx st4 @
                                      [(level + 1, level - 1, p),
                                       (level + 1, level, length (solutions st4 ! level) - 2)]\<rparr>)
                               else Inr st4)))"

text \<open>The body of the \<open>level\<close> loop, lines 396--461. The bound of the \<open>p\<close> loop is
  \<open>solutions[level-1].size()-1\<close> in \<open>size_t\<close> arithmetic: for an empty level it wraps
  around and the first \<open>.at(0)\<close> throws. The loop body never changes level \<open>level - 1\<close>,
  so the bound is taken once.\<close>

definition buildLevel ::
  "'s arcLengthIterator \<Rightarrow> real list \<Rightarrow> real \<Rightarrow> nat \<Rightarrow> 's run_state \<Rightarrow> 's outcome" where
  "buildLevel al Force dL level st =
     (if level - 1 < length (errors st) \<and> level - 1 < length (solutions st)
      then
        let st1 = st\<lparr>errors := (errors st)[level - 1 :=
                     resize (length (solutions st ! (level - 1))) 0 (errors st ! (level - 1))]\<rparr>
        in and_then (push_point level (U0 Force, L0) st1) (\<lambda>st2.
             let st3 = st2\<lparr>arcLength := setLength al (dL / 2 ^ level) (arcLength st2)\<rparr>;
                 n = length (solutions st3 ! (level - 1))
             in if n = 0 then Inl (OutOfRange, st3)
                else and_then (for_each [0..<n - 1] (refineInterval al Force dL level) st3)
                       (\<lambda>st4. Inr (st4\<lparr>solutions := solutions st4 @ [[]]\<rparr>)))
      else Inl (UndefinedAccess, st))"

definition buildLevels ::
  "'s arcLengthIterator \<Rightarrow> real list \<Rightarrow> real \<Rightarrow> nat \<Rightarrow> 's run_state \<Rightarrow> 's outcome" where
  "buildLevels al Force dL maxLevel st =
     for_each [1..<maxLevel + 1] (buildLevel al Force dL) st"

text \<open>Lines 465--467: one entry of \<open>points\<close> per stored point of levels 0 to maxLevel.\<close>

definition collectPoints :: "nat \<Rightarrow> 's run_state \<Rightarrow> 's outcome" where
  "collectPoints maxLevel st =
     (if maxLevel < length (solutions st)
      then Inr (st\<lparr>points := points st @
             concat (map (\<lambda>l. map (\<lambda>p. (l, p)) [0..<length (solutions st ! l)])
                       [0..<maxLevel + 1])\<rparr>)
      else Inl (UndefinedAccess, st))"

subsection \<open>The refinement queue (lines 472--543)\<close>

text \<open>\<open>solutions.size()-1 < level\<close> and \<open>errors.size()-1 < level-1\<close>: the left sides are
  \<open>size_t\<close>, so the right sides are converted to \<open>size_t\<close> too. An empty vector gives the
  largest \<open>size_t\<close> on the left (the test fails); \<open>level = 0\<close> gives it on the right.\<close>

definition solutionsGuard :: "nat \<Rightarrow> nat \<Rightarrow> bool" where
  "solutionsGuard n level \<longleftrightarrow> n \<noteq> 0 \<and> n - 1 < level"

definition errorsGuard :: "nat \<Rightarrow> nat \<Rightarrow> bool" where
  "errorsGuard n level \<longleftrightarrow> n \<noteq> 0 \<and> (level = 0 \<or> n - 1 < level - 1)"

text \<open>Lines 487--499.\<close>

definition ensureLevels :: "nat \<Rightarrow> 's run_state \<Rightarrow> 's run_state" where
  "ensureLevels level st =
     (let st1 = (if solutionsGuard (length (solutions st)) level
                 then st\<lparr>solutions := resize (level + 1) [] (solutions st)\<rparr> else st)
      in if errorsGuard (length (errors st1)) level
         then st1\<lparr>errors := resize level [] (errors st1)\<rparr> else st1)"

text \<open>The body of the \<open>while\<close> loop after the task has been taken off the queue,
  lines 487--541. The right side of the assignment at line 534 is evaluated before the
  left side. The \<open>if\<close> of line 537 has an empty body (its push is commented out). The
  debug print of line 533 repeats the read of line 510.\<close>

fun processTask ::
  "'s arcLengthIterator \<Rightarrow> real list \<Rightarrow> real \<Rightarrow> task \<Rightarrow> 's run_state \<Rightarrow> 's outcome" where
  "processTask al Force dL (level, reflevel, pindex) st =
     (let st2 = ensureLevels level st
      in case at_point (solutions st2) reflevel pindex of
           Inl e \<Rightarrow> Inl (e, st2)
         | Inr (Uold, Lold) \<Rightarrow>
             let st3 = st2\<lparr>arcLength := resetStep al (setSolution al Uold Lold (arcLength st2))\<rparr>
             in and_then (push_point (level + 1) (Uold, Lold) st3) (\<lambda>st4.
                  case at_point (solutions st4) reflevel (pindex + 1) of
                    Inl e \<Rightarrow> Inl (e, st4)
                  | Inr (Uguess, Lguess) \<Rightarrow>
                      let st5 = st4\<lparr>arcLength := setLength al (dL / 2 ^ level)
                                  (setInitialGuess al Uguess Lguess (arcLength st4))\<rparr>
                      in and_then
                           (for_each [0..<2]
                              (\<lambda>k s. and_then (stepAndStore al (level + 1) s) (recordPoint (level + 1)))
                              st5)
                           (\<lambda>st6.
                              case at_point (solutions st6) level (pindex + 1) of
                                Inl e \<Rightarrow> Inl (e, st6)
                              | Inr (Uc, Lc) \<Rightarrow>
                                  set_error level pindex
                                    (errorEstimate Force Uc Lc (solutionU al (arcLength st6))
                                       (solutionL al (arcLength st6)) (dL / 2 ^ level))
                                    st6)))"

text \<open>\<open>while (refIdx.size() != 0)\<close>: take the first task, erase it, process it.
  \<open>None\<close> would be a loop that never ends.\<close>

partial_function (option) refine ::
  "'s arcLengthIterator \<Rightarrow> real list \<Rightarrow> real \<Rightarrow> 's run_state \<Rightarrow> 's outcome option" where
  "refine al Force dL st =
     (case refIdx st of
        [] \<Rightarrow> Some (Inr st)
      | t # q \<Rightarrow>
          (case processTask al Force dL t (st\<lparr>refIdx := q\<rparr>) of
             Inl a \<Rightarrow> Some (Inl a)
           | Inr st' \<Rightarrow> refine al Force dL st'))"

declare refine.simps [code]

subsection \<open>The whole run\<close>

text \<open>Lines 345--362: the containers as \<open>main\<close> creates them, for \<open>maxLevel \<ge> 0\<close>.\<close>

definition initial :: "'s arcLengthIterator \<Rightarrow> nat \<Rightarrow> 's \<Rightarrow> 's run_state" where
  "initial al maxLevel a0 =
     \<lparr>solutions = replicate (maxLevel + 1) [], errors = replicate maxLevel [],
      refIdx = [], points = [], arcLength = setIndicator al 0 a0\<rparr>"

text \<open>Everything before the \<open>while\<close> loop.\<close>

definition build ::
  "'s arcLengthIterator \<Rightarrow> real list \<Rightarrow> real \<Rightarrow> int \<Rightarrow> nat \<Rightarrow> 's \<Rightarrow> 's outcome" where
  "build al Force dL stp maxLevel a0 =
     and_then (level0 al Force stp (initial al maxLevel a0)) (\<lambda>st.
     and_then (buildLevels al Force dL maxLevel st) (collectPoints maxLevel))"

definition run ::
  "'s arcLengthIterator \<Rightarrow> real list \<Rightarrow> real \<Rightarrow> int \<Rightarrow> nat \<Rightarrow> 's \<Rightarrow> 's outcome option" where
  "run al Force dL stp maxLevel a0 =
     (case build al Force dL stp maxLevel a0 of
        Inl a \<Rightarrow> Some (Inl a)
      | Inr st \<Rightarrow> refine al Force dL st)"

subsection \<open>A small iterator for concrete runs\<close>

text \<open>A stand-in for the iterator: the state vector has one component and never moves, the
  load factor advances by exactly the arc-length, and the step with number \<open>n\<close> (counted
  from 0 over the whole run) overshoots by 1. Every step converges.\<close>

record walker =
  wU :: "real list"
  wL :: real
  wLen :: real
  wCount :: nat

definition bumpIterator :: "nat \<Rightarrow> walker arcLengthIterator" where
  "bumpIterator n =
     \<lparr>step = (\<lambda>s. \<lparr>wU = wU s,
                     wL = wL s + wLen s + (if wCount s = n then 1 else 0),
                     wLen = wLen s,
                     wCount = Suc (wCount s)\<rparr>),
      converged = (\<lambda>s. True),
      solutionU = wU,
      solutionL = wL,
      setSolution = (\<lambda>U L s. s\<lparr>wU := U, wL := L\<rparr>),
      setInitialGuess = (\<lambda>U L s. s),
      resetStep = (\<lambda>s. s),
      setLength = (\<lambda>d s. s\<lparr>wLen := d\<rparr>),
      setIndicator = (\<lambda>v s. s)\<rparr>"

text \<open>The iterator as \<open>main\<close> finds it after \<open>initialize()\<close>, with \<open>Length\<close> set to \<open>dL\<close>.\<close>

definition walker0 :: "real \<Rightarrow> walker" where
  "walker0 dL = \<lparr>wU = [0], wL = 0, wLen = dL, wCount = 0\<rparr>"

subsection \<open>Auxiliary notions for the statements\<close>

text \<open>The point the iterator holds after \<open>k + 1\<close> steps from state \<open>a\<close>.\<close>

definition stepPoint :: "'s arcLengthIterator \<Rightarrow> 's \<Rightarrow> nat \<Rightarrow> point" where
  "stepPoint al a k = (solutionU al ((step al ^^ Suc k) a), solutionL al ((step al ^^ Suc k) a))"

text \<open>The point an iterator state stands for: \<open>(solutionU(), solutionL())\<close>.\<close>

definition pointOf :: "'s arcLengthIterator \<Rightarrow> 's \<Rightarrow> point" where
  "pointOf al a = (solutionU al a, solutionL al a)"

text \<open>The points of level \<open>l\<close> of a store; none if the store has no such level yet.\<close>

definition levelPoints :: "point list list \<Rightarrow> nat \<Rightarrow> point list" where
  "levelPoints sols l = (if l < length sols then sols ! l else [])"

subsection \<open>States of three concrete runs\<close>

text \<open>Run A: iterator \<open>bumpIterator 0\<close>, reference force \<open>[1]\<close>, \<open>dL = 1\<close>, one step on
  level 0, \<open>maxLevel = 3\<close>. \<open>builtA\<close> is the state when the \<open>while\<close> loop is reached,
  \<open>task1A\<close> the state after the first task, \<open>doneA\<close> the state at the end.\<close>

definition builtA :: "walker run_state" where
  "builtA =
     \<lparr>solutions =
        [[([0], 0), ([0], 2)],
         [([0], 0), ([0], 1 / 2), ([0], 1)],
         [([0], 0), ([0], 1 / 4), ([0], 1 / 2), ([0], 3 / 4), ([0], 1)],
         [([0], 0), ([0], 1 / 8), ([0], 1 / 4), ([0], 3 / 8), ([0], 1 / 2),
          ([0], 5 / 8), ([0], 3 / 4), ([0], 7 / 8), ([0], 1)],
         [], [], []],
      errors = [[2, 0], [0, 0, 0], [0, 0, 0, 0, 0]],
      refIdx = [(2, 0, 0), (2, 1, 1)],
      points =
        [(0, 0), (0, 1), (1, 0), (1, 1), (1, 2), (2, 0), (2, 1), (2, 2), (2, 3), (2, 4),
         (3, 0), (3, 1), (3, 2), (3, 3), (3, 4), (3, 5), (3, 6), (3, 7), (3, 8)],
      arcLength = \<lparr>wU = [0], wL = 1, wLen = 1 / 8, wCount = 15\<rparr>\<rparr>"

definition task1A :: "walker run_state" where
  "task1A =
     \<lparr>solutions =
        [[([0], 0), ([0], 2)],
         [([0], 0), ([0], 1 / 2), ([0], 1)],
         [([0], 0), ([0], 1 / 4), ([0], 1 / 2), ([0], 3 / 4), ([0], 1)],
         [([0], 0), ([0], 1 / 8), ([0], 1 / 4), ([0], 3 / 8), ([0], 1 / 2),
          ([0], 5 / 8), ([0], 3 / 4), ([0], 7 / 8), ([0], 1),
          ([0], 0), ([0], 1 / 4), ([0], 1 / 2)],
         [], [], []],
      errors = [[2, 0], [0, 0, 0], [1, 0, 0, 0, 0]],
      refIdx = [(2, 1, 1)],
      points =
        [(0, 0), (0, 1), (1, 0), (1, 1), (1, 2), (2, 0), (2, 1), (2, 2), (2, 3), (2, 4),
         (3, 0), (3, 1), (3, 2), (3, 3), (3, 4), (3, 5), (3, 6), (3, 7), (3, 8),
         (3, 6), (3, 6)],
      arcLength = \<lparr>wU = [0], wL = 1 / 2, wLen = 1 / 4, wCount = 17\<rparr>\<rparr>"

definition doneA :: "walker run_state" where
  "doneA =
     \<lparr>solutions =
        [[([0], 0), ([0], 2)],
         [([0], 0), ([0], 1 / 2), ([0], 1)],
         [([0], 0), ([0], 1 / 4), ([0], 1 / 2), ([0], 3 / 4), ([0], 1)],
         [([0], 0), ([0], 1 / 8), ([0], 1 / 4), ([0], 3 / 8), ([0], 1 / 2),
          ([0], 5 / 8), ([0], 3 / 4), ([0], 7 / 8), ([0], 1),
          ([0], 0), ([0], 1 / 4), ([0], 1 / 2),
          ([0], 1 / 2), ([0], 3 / 4), ([0], 1)],
         [], [], []],
      errors = [[2, 0], [0, 0, 0], [1, 2, 0, 0, 0]],
      refIdx = [],
      points =
        [(0, 0), (0, 1), (1, 0), (1, 1), (1, 2), (2, 0), (2, 1), (2, 2), (2, 3), (2, 4),
         (3, 0), (3, 1), (3, 2), (3, 3), (3, 4), (3, 5), (3, 6), (3, 7), (3, 8),
         (3, 6), (3, 6), (3, 6), (3, 6)],
      arcLength = \<lparr>wU = [0], wL = 1, wLen = 1 / 4, wCount = 19\<rparr>\<rparr>"

text \<open>Run B: as run A with \<open>maxLevel = 2\<close> (the default of \<open>main\<close>). \<open>builtB\<close> is the
  state when the \<open>while\<close> loop is reached, \<open>abortB\<close> the state when the run stops.\<close>

definition builtB :: "walker run_state" where
  "builtB =
     \<lparr>solutions =
        [[([0], 0), ([0], 2)],
         [([0], 0), ([0], 1 / 2), ([0], 1)],
         [([0], 0), ([0], 1 / 4), ([0], 1 / 2), ([0], 3 / 4), ([0], 1)],
         [], []],
      errors = [[2, 0], [0, 0, 0]],
      refIdx = [(2, 0, 0), (2, 1, 1)],
      points =
        [(0, 0), (0, 1), (1, 0), (1, 1), (1, 2), (2, 0), (2, 1), (2, 2), (2, 3), (2, 4)],
      arcLength = \<lparr>wU = [0], wL = 1, wLen = 1 / 4, wCount = 7\<rparr>\<rparr>"

definition abortB :: "walker run_state" where
  "abortB =
     \<lparr>solutions =
        [[([0], 0), ([0], 2)],
         [([0], 0), ([0], 1 / 2), ([0], 1)],
         [([0], 0), ([0], 1 / 4), ([0], 1 / 2), ([0], 3 / 4), ([0], 1)],
         [([0], 0), ([0], 1 / 4)], []],
      errors = [[2, 0], [0, 0, 0]],
      refIdx = [(2, 1, 1)],
      points =
        [(0, 0), (0, 1), (1, 0), (1, 1), (1, 2), (2, 0), (2, 1), (2, 2), (2, 3), (2, 4)],
      arcLength = \<lparr>wU = [0], wL = 1 / 4, wLen = 1 / 4, wCount = 8\<rparr>\<rparr>"

text \<open>Run C: iterator \<open>bumpIterator 1\<close>, reference force \<open>[1]\<close>, \<open>dL = 1\<close>, two steps on
  level 0, \<open>maxLevel = 2\<close>. \<open>builtC\<close> is the state when the \<open>while\<close> loop is reached,
  \<open>abortC\<close> the state when the run stops.\<close>

definition builtC :: "walker run_state" where
  "builtC =
     \<lparr>solutions =
        [[([0], 0), ([0], 1), ([0], 3)],
         [([0], 0), ([0], 1 / 2), ([0], 1), ([0], 3 / 2), ([0], 2)],
         [([0], 0), ([0], 1 / 4), ([0], 1 / 2), ([0], 3 / 4), ([0], 1),
          ([0], 5 / 4), ([0], 3 / 2), ([0], 7 / 4), ([0], 2)],
         [], []],
      errors = [[0, 2, 0], [0, 0, 0, 0, 0]],
      refIdx = [(2, 0, 1), (2, 1, 3)],
      points =
        [(0, 0), (0, 1), (0, 2), (1, 0), (1, 1), (1, 2), (1, 3), (1, 4),
         (2, 0), (2, 1), (2, 2), (2, 3), (2, 4), (2, 5), (2, 6), (2, 7), (2, 8)],
      arcLength = \<lparr>wU = [0], wL = 2, wLen = 1 / 4, wCount = 14\<rparr>\<rparr>"

definition abortC :: "walker run_state" where
  "abortC =
     \<lparr>solutions =
        [[([0], 0), ([0], 1), ([0], 3)],
         [([0], 0), ([0], 1 / 2), ([0], 1), ([0], 3 / 2), ([0], 2)],
         [([0], 0), ([0], 1 / 4), ([0], 1 / 2), ([0], 3 / 4), ([0], 1),
          ([0], 5 / 4), ([0], 3 / 2), ([0], 7 / 4), ([0], 2)],
         [([0], 1), ([0], 5 / 4)], []],
      errors = [[0, 2, 0], [0, 0, 0, 0, 0]],
      refIdx = [(2, 1, 3)],
      points =
        [(0, 0), (0, 1), (0, 2), (1, 0), (1, 1), (1, 2), (1, 3), (1, 4),
         (2, 0), (2, 1), (2, 2), (2, 3), (2, 4), (2, 5), (2, 6), (2, 7), (2, 8)],
      arcLength = \<lparr>wU = [0], wL = 5 / 4, wLen = 1 / 4, wCount = 15\<rparr>\<rparr>"

text \<open>Run A inside the \<open>level\<close> loop: the state before and after the only interval of
  level 0 is refined at level 1.\<close>

definition beforeIntervalA :: "walker run_state" where
  "beforeIntervalA =
     \<lparr>solutions = [[([0], 0), ([0], 2)], [([0], 0)], [], []],
      errors = [[0, 0], [], []], refIdx = [], points = [],
      arcLength = \<lparr>wU = [0], wL = 2, wLen = 1 / 2, wCount = 1\<rparr>\<rparr>"

definition afterIntervalA :: "walker run_state" where
  "afterIntervalA =
     \<lparr>solutions = [[([0], 0), ([0], 2)], [([0], 0), ([0], 1 / 2), ([0], 1)], [], []],
      errors = [[2, 0], [], []], refIdx = [(2, 0, 0), (2, 1, 1)], points = [],
      arcLength = \<lparr>wU = [0], wL = 1, wLen = 1 / 2, wCount = 3\<rparr>\<rparr>"

text \<open>Append-only growth of the store: every level that was there is still there, and its
  point sequence has only been extended at the end.\<close>

definition store_extends :: "point list list \<Rightarrow> point list list \<Rightarrow> bool" where
  "store_extends old new \<longleftrightarrow>
     length old \<le> length new \<and> (\<forall>l < length old. prefix (old ! l) (new ! l))"

text \<open>Levels 0 to maxLevel exist, and each of them is still empty or starts with the
  undeformed solution.\<close>

definition headsAreReference :: "real list \<Rightarrow> nat \<Rightarrow> point list list \<Rightarrow> bool" where
  "headsAreReference Force maxLevel sols \<longleftrightarrow>
     maxLevel < length sols \<and> (\<forall>l \<le> maxLevel. sols ! l = [] \<or> hd (sols ! l) = (U0 Force, L0))"

subsection \<open>The error estimate in double precision\<close>

text \<open>
  \<open>real_t\<close> is \<open>double\<close>, so lines 437 and 534 round after every operation, can overflow to an
  infinity and can produce a NaN. \<open>errorEstimate\<close> above leaves this out: it serves the
  control flow of the program, and in the concrete runs below every value is a small dyadic
  number that double arithmetic computes exactly. Statements about the sign and the zeros of
  the expression for arbitrary inputs are made on the following model instead.

  A double is a finite real, an infinity or a NaN (the sign of a zero is not kept: \<open>-0.0\<close>
  compares equal to \<open>0.0\<close>). An operation computes the exact result, rounds it, and returns
  an infinity if the rounded result is beyond the largest finite value.

  The source does not fix the rounding mode, nor whether the compiler keeps an intermediate
  result in a wider format or fuses the product and the sum, nor the order in which Eigen's
  reduction adds the squares in \<open>.norm()\<close>. So every kind of operation of the expression
  (\<open>site\<close>) has a rounding function and a largest finite value of its own, and the order of the
  additions of a reduction is a parameter. Of a rounding function only monotonicity and
  \<open>rnd 0 = 0\<close> are used; both hold for IEEE 754 rounding in every rounding mode, with or
  without gradual underflow, and for the exact result of a fused operation.
\<close>

datatype fp = Fin real | PInf | NInf | NaN

type_synonym arith = "(real \<Rightarrow> real) \<times> real"

datatype site = SubL | SubU | Sqr | Sum | Sqrt | Mul | Add | Div

definition rounding :: "(real \<Rightarrow> real) \<Rightarrow> bool" where
  "rounding rnd \<longleftrightarrow> (\<forall>x y. x \<le> y \<longrightarrow> rnd x \<le> rnd y) \<and> rnd 0 = 0"

definition arithmetic :: "(site \<Rightarrow> arith) \<Rightarrow> bool" where
  "arithmetic mc \<longleftrightarrow> (\<forall>s. rounding (fst (mc s)) \<and> 0 \<le> snd (mc s))"

definition finish :: "arith \<Rightarrow> real \<Rightarrow> fp" where
  "finish ar x =
     (let y = fst ar x in if snd ar < y then PInf else if y < - snd ar then NInf else Fin y)"

text \<open>\<open>std::abs\<close>.\<close>

fun fabs :: "fp \<Rightarrow> fp" where
  "fabs (Fin x) = Fin \<bar>x\<bar>"
| "fabs PInf = PInf"
| "fabs NInf = PInf"
| "fabs NaN = NaN"

text \<open>\<open>a - b\<close>.\<close>

fun fsub :: "arith \<Rightarrow> fp \<Rightarrow> fp \<Rightarrow> fp" where
  "fsub ar NaN b = NaN"
| "fsub ar a NaN = NaN"
| "fsub ar (Fin x) (Fin y) = finish ar (x - y)"
| "fsub ar (Fin x) PInf = NInf"
| "fsub ar (Fin x) NInf = PInf"
| "fsub ar PInf PInf = NaN"
| "fsub ar NInf NInf = NaN"
| "fsub ar PInf b = PInf"
| "fsub ar NInf b = NInf"

text \<open>\<open>a + b\<close>.\<close>

fun fadd :: "arith \<Rightarrow> fp \<Rightarrow> fp \<Rightarrow> fp" where
  "fadd ar NaN b = NaN"
| "fadd ar a NaN = NaN"
| "fadd ar (Fin x) (Fin y) = finish ar (x + y)"
| "fadd ar PInf NInf = NaN"
| "fadd ar NInf PInf = NaN"
| "fadd ar PInf b = PInf"
| "fadd ar NInf b = NInf"
| "fadd ar (Fin x) b = b"

text \<open>\<open>a * b\<close>; an infinity times zero is a NaN.\<close>

fun fmul :: "arith \<Rightarrow> fp \<Rightarrow> fp \<Rightarrow> fp" where
  "fmul ar NaN b = NaN"
| "fmul ar a NaN = NaN"
| "fmul ar (Fin x) (Fin y) = finish ar (x * y)"
| "fmul ar (Fin x) PInf = (if x = 0 then NaN else if 0 < x then PInf else NInf)"
| "fmul ar (Fin x) NInf = (if x = 0 then NaN else if 0 < x then NInf else PInf)"
| "fmul ar PInf (Fin y) = (if y = 0 then NaN else if 0 < y then PInf else NInf)"
| "fmul ar NInf (Fin y) = (if y = 0 then NaN else if 0 < y then NInf else PInf)"
| "fmul ar PInf PInf = PInf"
| "fmul ar NInf NInf = PInf"
| "fmul ar PInf NInf = NInf"
| "fmul ar NInf PInf = NInf"

text \<open>\<open>a / b\<close>; a zero divisor counts as \<open>+0.0\<close>.\<close>

fun fdiv :: "arith \<Rightarrow> fp \<Rightarrow> fp \<Rightarrow> fp" where
  "fdiv ar NaN b = NaN"
| "fdiv ar a NaN = NaN"
| "fdiv ar (Fin x) (Fin y) =
     (if y = 0 then (if x = 0 then NaN else if 0 < x then PInf else NInf)
      else finish ar (x / y))"
| "fdiv ar (Fin x) b = Fin 0"
| "fdiv ar PInf (Fin y) = (if 0 \<le> y then PInf else NInf)"
| "fdiv ar NInf (Fin y) = (if 0 \<le> y then NInf else PInf)"
| "fdiv ar a b = NaN"

text \<open>\<open>std::sqrt\<close>.\<close>

fun fsqrt :: "arith \<Rightarrow> fp \<Rightarrow> fp" where
  "fsqrt ar (Fin x) = (if x < 0 then NaN else finish ar (sqrt x))"
| "fsqrt ar PInf = PInf"
| "fsqrt ar NInf = NaN"
| "fsqrt ar NaN = NaN"

text \<open>The order in which a reduction adds the entries of a vector: an entry by its index, or
  the sum of two partial sums. The sum over no entry is zero.\<close>

datatype order = Entry nat | Plus order order

fun sumFP :: "arith \<Rightarrow> order \<Rightarrow> fp list \<Rightarrow> fp" where
  "sumFP ar (Entry i) xs = (if i < length xs then xs ! i else Fin 0)"
| "sumFP ar (Plus a b) xs = fadd ar (sumFP ar a xs) (sumFP ar b xs)"

text \<open>Eigen's \<open>.norm()\<close>: the square root of the sum of the squares; \<open>u - v\<close> componentwise.\<close>

definition normFP :: "(site \<Rightarrow> arith) \<Rightarrow> order \<Rightarrow> fp list \<Rightarrow> fp" where
  "normFP mc ord v = fsqrt (mc Sqrt) (sumFP (mc Sum) ord (map (\<lambda>x. fmul (mc Sqr) x x) v))"

definition minusFP :: "arith \<Rightarrow> fp list \<Rightarrow> fp list \<Rightarrow> fp list" where
  "minusFP ar u v = map2 (fsub ar) u v"

text \<open>The expression of lines 437 and 534, operation by operation; \<open>ordF\<close> and \<open>ordU\<close> are
  the orders of the additions in \<open>Force.norm()\<close> and in the norm of the difference.\<close>

definition errorEstimateFP ::
  "(site \<Rightarrow> arith) \<Rightarrow> order \<Rightarrow> order \<Rightarrow> fp list \<Rightarrow> fp list \<Rightarrow> fp \<Rightarrow> fp list \<Rightarrow> fp \<Rightarrow> fp \<Rightarrow> fp" where
  "errorEstimateFP mc ordF ordU Force Uc Lc Uf Lf dLi =
     fdiv (mc Div)
       (fadd (mc Add)
          (fmul (mc Mul) (fabs (fsub (mc SubL) Lc Lf)) (normFP mc ordF Force))
          (normFP mc ordU (minusFP (mc SubU) Uc Uf)))
       dLi"

text \<open>\<open>x >= 0\<close> on doubles: false for a NaN.\<close>

fun nonnegFP :: "fp \<Rightarrow> bool" where
  "nonnegFP (Fin x) = (0 \<le> x)"
| "nonnegFP PInf = True"
| "nonnegFP NInf = False"
| "nonnegFP NaN = False"

text \<open>A small arithmetic for concrete evaluation: every operation rounds down to the next
  multiple of 1/4, and the largest finite value is 1000.\<close>

definition roundDown4 :: "real \<Rightarrow> real" where
  "roundDown4 x = of_int \<lfloor>4 * x\<rfloor> / 4"

definition quarters :: "site \<Rightarrow> arith" where
  "quarters s = (roundDown4, 1000)"

subsection \<open>The states in which \<open>step()\<close> is called\<close>

text \<open>The three \<open>k\<close> loops call \<open>step()\<close>. The states in which they start are the
  prefixes of \<open>level0\<close>, \<open>buildLevel\<close>, \<open>refineInterval\<close> and \<open>processTask\<close> up to the
  loop, for the case that no access before the loop stops the run.\<close>

text \<open>The state in which the \<open>k\<close> loop of level 0 starts (after line 374).\<close>

definition level0Start :: "real list \<Rightarrow> 's run_state \<Rightarrow> 's run_state" where
  "level0Start Force st = st\<lparr>solutions := (solutions st)[0 := solutions st ! 0 @ [(U0 Force, L0)]]\<rparr>"

text \<open>The state in which the \<open>p\<close> loop of a level starts (after lines 397--409).\<close>

definition levelStart ::
  "'s arcLengthIterator \<Rightarrow> real list \<Rightarrow> real \<Rightarrow> nat \<Rightarrow> 's run_state \<Rightarrow> 's run_state" where
  "levelStart al Force dL level st =
     st\<lparr>errors := (errors st)[level - 1 :=
            resize (length (solutions st ! (level - 1))) 0 (errors st ! (level - 1))],
        solutions := (solutions st)[level := solutions st ! level @ [(U0 Force, L0)]],
        arcLength := setLength al (dL / 2 ^ level) (arcLength st)\<rparr>"

text \<open>The state in which the \<open>k\<close> loop of an interval starts (after lines 417--424), for the
  start point \<open>start\<close> and the initial guess \<open>guess\<close> read from level \<open>level - 1\<close>.\<close>

definition intervalStart ::
  "'s arcLengthIterator \<Rightarrow> point \<Rightarrow> point \<Rightarrow> 's run_state \<Rightarrow> 's run_state" where
  "intervalStart al start guess st =
     st\<lparr>arcLength := setInitialGuess al (fst guess) (snd guess)
                       (resetStep al (setSolution al (fst start) (snd start) (arcLength st)))\<rparr>"

text \<open>The state in which the \<open>k\<close> loop of a task starts (after lines 487--516).\<close>

definition taskStart ::
  "'s arcLengthIterator \<Rightarrow> real \<Rightarrow> nat \<Rightarrow> point \<Rightarrow> point \<Rightarrow> 's run_state \<Rightarrow> 's run_state" where
  "taskStart al dL level start guess st =
     (ensureLevels level st)
       \<lparr>solutions := (solutions (ensureLevels level st))
                       [level + 1 := solutions (ensureLevels level st) ! (level + 1) @ [start]],
        arcLength := setLength al (dL / 2 ^ level)
                       (setInitialGuess al (fst guess) (snd guess)
                          (resetStep al (setSolution al (fst start) (snd start)
                             (arcLength (ensureLevels level st)))))\<rparr>"

text \<open>The body of the \<open>while\<close> loop: take the first task off the queue and process it.\<close>

definition nextTask ::
  "'s arcLengthIterator \<Rightarrow> real list \<Rightarrow> real \<Rightarrow> task \<Rightarrow> 's run_state \<Rightarrow> 's outcome" where
  "nextTask al Force dL t s = processTask al Force dL t (s\<lparr>refIdx := tl (refIdx s)\<rparr>)"

text \<open>The stand-in iterator whose \<open>m\<close>-th \<open>step()\<close> call of the run (counted from 1) does
  not converge.\<close>

definition haltingIterator :: "nat \<Rightarrow> walker arcLengthIterator" where
  "haltingIterator m = (bumpIterator 0)\<lparr>converged := (\<lambda>s. wCount s \<noteq> m)\<rparr>"

text \<open>Two states of the run of \<open>haltingIterator m\<close> with reference force \<open>[1]\<close>, \<open>dL = 1\<close>,
  one step on level 0 and \<open>maxLevel = 3\<close>: \<open>secondStepLevel1\<close> is the state before the second
  step of the first interval of level 1 (the third \<open>step()\<close> call of the run), and
  \<open>secondStepTask1\<close> the state before the second step of the first queued task (the 17th
  \<open>step()\<close> call of the run).\<close>

definition secondStepLevel1 :: "walker run_state" where
  "secondStepLevel1 =
     \<lparr>solutions = [[([0], 0), ([0], 2)], [([0], 0), ([0], 1 / 2)], [], []],
      errors = [[0, 0], [], []],
      refIdx = [],
      points = [],
      arcLength = \<lparr>wU = [0], wL = 1 / 2, wLen = 1 / 2, wCount = 2\<rparr>\<rparr>"

definition secondStepTask1 :: "walker run_state" where
  "secondStepTask1 =
     \<lparr>solutions =
        [[([0], 0), ([0], 2)],
         [([0], 0), ([0], 1 / 2), ([0], 1)],
         [([0], 0), ([0], 1 / 4), ([0], 1 / 2), ([0], 3 / 4), ([0], 1)],
         [([0], 0), ([0], 1 / 8), ([0], 1 / 4), ([0], 3 / 8), ([0], 1 / 2),
          ([0], 5 / 8), ([0], 3 / 4), ([0], 7 / 8), ([0], 1),
          ([0], 0), ([0], 1 / 4)],
         [], [], []],
      errors = [[2, 0], [0, 0, 0], [0, 0, 0, 0, 0]],
      refIdx = [(2, 1, 1)],
      points =
        [(0, 0), (0, 1), (1, 0), (1, 1), (1, 2), (2, 0), (2, 1), (2, 2), (2, 3), (2, 4),
         (3, 0), (3, 1), (3, 2), (3, 3), (3, 4), (3, 5), (3, 6), (3, 7), (3, 8), (3, 6)],
      arcLength = \<lparr>wU = [0], wL = 1 / 4, wLen = 1 / 4, wCount = 16\<rparr>\<rparr>"

section \<open>Properties of the error estimate\<close>

subsection \<open>Exact arithmetic\<close>

lemma norm_vec_single [simp]: "norm_vec [x] = \<bar>x\<bar>"
  by (simp add: norm_vec_def)

lemma norm_vec_Nil [simp]: "norm_vec [] = 0"
  by (simp add: norm_vec_def)

lemma minus_vec_single [simp]: "minus_vec [x] [y] = [x - y]"
  by (simp add: minus_vec_def)


subsection \<open>The sign and the zeros in double precision\<close>

lemma rounding_nonneg:
  assumes "rounding rnd" and "0 \<le> x"
  shows "0 \<le> rnd x"
proof -
  from assms have "rnd 0 \<le> rnd x" unfolding rounding_def by blast
  with assms(1) show ?thesis by (simp add: rounding_def)
qed

lemma arithmetic_site:
  assumes "arithmetic mc"
  shows "rounding (fst (mc s))" and "0 \<le> snd (mc s)"
  using assms by (simp_all add: arithmetic_def)

lemma finish_nonneg:
  assumes "rounding (fst ar)" and "0 \<le> snd ar" and "0 \<le> x"
  shows "nonnegFP (finish ar x)"
  using rounding_nonneg [OF assms(1,3)] assms(2) by (simp add: finish_def Let_def)

lemma finish_zero:
  assumes "rounding (fst ar)" and "0 \<le> snd ar"
  shows "finish ar 0 = Fin 0"
  using assms by (simp add: finish_def rounding_def)



lemma fadd_harmless:
  assumes "rounding (fst ar)" and "0 \<le> snd ar"
    and "a = NaN \<or> nonnegFP a" and "b = NaN \<or> nonnegFP b"
  shows "fadd ar a b = NaN \<or> nonnegFP (fadd ar a b)"
  using assms(3,4) finish_nonneg [OF assms(1,2)]
  by (cases a; cases b) auto



lemma square_harmless:
  assumes "rounding (fst ar)" and "0 \<le> snd ar"
  shows "fmul ar x x = NaN \<or> nonnegFP (fmul ar x x)"
  using finish_nonneg [OF assms]
  by (cases x) auto

lemma sumFP_harmless:
  assumes "rounding (fst ar)" and "0 \<le> snd ar"
    and "\<forall>x \<in> set xs. x = NaN \<or> nonnegFP x"
  shows "sumFP ar ord xs = NaN \<or> nonnegFP (sumFP ar ord xs)"
proof (induction ord)
  case (Entry i)
  from assms(3) show ?case by simp
next
  case (Plus a b)
  then show ?case
    by (simp only: sumFP.simps) (rule fadd_harmless [OF assms(1,2)])
qed


lemma sumFP_zeros:
  assumes "rounding (fst ar)" and "0 \<le> snd ar"
  shows "sumFP ar ord (replicate n (Fin 0)) = Fin 0"
  by (induction ord) (simp_all add: finish_zero [OF assms])

lemma normFP_zeros:
  assumes "arithmetic mc"
  shows "normFP mc ord (replicate n (Fin 0)) = Fin 0"
  using arithmetic_site [OF assms, of Sqrt] arithmetic_site [OF assms, of Sqr]
  by (simp add: normFP_def finish_zero sumFP_zeros [OF arithmetic_site [OF assms]])

lemma minusFP_self:
  assumes "rounding (fst ar)" and "0 \<le> snd ar"
  shows "minusFP ar (map Fin us) (map Fin us) = replicate (length us) (Fin 0)"
  by (induction us) (simp_all add: minusFP_def finish_zero [OF assms])



text \<open>
  Double precision computes the same zero where the reference force vanishes: with equal
  states, the error is zero for any two load factors whose difference is finite.
\<close>

lemma errorEstimateFP_zero_force:
  assumes "arithmetic mc" and "0 < d" and "fsub (mc SubL) Lc Lf = Fin c"
  shows "errorEstimateFP mc ordF ordU (replicate m (Fin 0)) (map Fin us) Lc (map Fin us) Lf (Fin d)
           = Fin 0"
proof -
  note r = arithmetic_site [OF assms(1)]
  have z: "finish (mc s) 0 = Fin 0" for s by (rule finish_zero [OF r])
  show ?thesis
    using assms(2)
    by (simp add: errorEstimateFP_def assms(3) z minusFP_self [OF r] normFP_zeros [OF assms(1)])
qed

lemma errorEstimateFP_zero_force_example:
  "errorEstimateFP quarters (Entry 0) (Entry 0) [Fin 0] [Fin 0] (Fin 0) [Fin 0] (Fin 1) (Fin 1)
     = Fin 0"
  by (simp add: errorEstimateFP_def normFP_def minusFP_def finish_def roundDown4_def
        quarters_def)

text \<open>
  The converse of the zero statement fails in double precision even for a reference force
  of non-zero norm: the product of the load-factor difference and the norm of the force can
  round to zero. In the small arithmetic, \<open>1/4 * 1/2\<close> rounds to \<open>0\<close>; in double
  arithmetic the same happens for a force of norm \<open>2^-500\<close> and load factors \<open>2^-600\<close> and
  \<open>0\<close>.
\<close>

lemma errorEstimateFP_underflow:
  "normFP quarters (Entry 0) [Fin (1 / 2)] = Fin (1 / 2)
   \<and> errorEstimateFP quarters (Entry 0) (Entry 0)
        [Fin (1 / 2)] [Fin 0] (Fin (1 / 4)) [Fin 0] (Fin 0) (Fin 1) = Fin 0"
  by (simp add: errorEstimateFP_def normFP_def minusFP_def finish_def roundDown4_def
        quarters_def real_sqrt_divide)

text \<open>
  The computed error need not be a number: where the difference of the load factors
  overflows and the reference force vanishes, the product is an infinity times zero.
\<close>

lemma errorEstimateFP_nan:
  "errorEstimateFP quarters (Entry 0) (Entry 0)
     [Fin 0] [Fin 0] (Fin 1000) [Fin 0] (Fin (- 1000)) (Fin 1) = NaN"
  by (simp add: errorEstimateFP_def normFP_def minusFP_def finish_def roundDown4_def
        quarters_def)



section \<open>Basic facts about outcomes and loops\<close>

lemma and_then_Inl [simp]: "and_then (Inl a) f = Inl a"
  by (simp add: and_then_def)

lemma and_then_Inr [simp]: "and_then (Inr st) f = f st"
  by (simp add: and_then_def)

lemma final_Inl [simp]: "final (Inl (e, st)) = st"
  by (simp add: final_def)

lemma final_Inr [simp]: "final (Inr st) = st"
  by (simp add: final_def)

lemma for_each_append:
  "for_each (xs @ ys) body st = and_then (for_each xs body st) (for_each ys body)"
  by (induction xs arbitrary: st) (auto split: sum.splits)

lemma upt_two: "[0..<2] = [0, Suc 0]"
  by (simp add: upt_rec)

lemma for_each_two:
  "for_each [0..<2] body st = and_then (body 0 st) (body (Suc 0))"
  by (simp add: upt_two and_then_def split: sum.splits)

lemma refine_Nil: "refIdx st = [] \<Longrightarrow> refine al Force dL st = Some (Inr st)"
  by (subst refine.simps) simp

section \<open>Converging steps and the uniform walk on level 0\<close>

lemma stepAndStore_converged:
  assumes "converged al (step al (arcLength st))" and "l < length (solutions st)"
  shows "stepAndStore al l st =
     Inr (st\<lparr>arcLength := step al (arcLength st),
            solutions := (solutions st)[l := solutions st ! l @
              [(solutionU al (step al (arcLength st)), solutionL al (step al (arcLength st)))]]\<rparr>)"
  using assms by (simp add: stepAndStore_def Let_def push_point_def)

lemma steps_converged:
  assumes "l < length (solutions st)"
    and "\<forall>k<n. converged al ((step al ^^ Suc k) (arcLength st))"
  shows "for_each [0..<n] (\<lambda>k. stepAndStore al l) st =
     Inr (st\<lparr>arcLength := (step al ^^ n) (arcLength st),
            solutions := (solutions st)[l := solutions st ! l @
              map (stepPoint al (arcLength st)) [0..<n]]\<rparr>)"
  using assms
proof (induction n)
  case 0
  then show ?case by simp
next
  case (Suc n)
  then have c: "converged al (step al ((step al ^^ n) (arcLength st)))"
    by auto
  from Suc have IH: "for_each [0..<n] (\<lambda>k. stepAndStore al l) st =
     Inr (st\<lparr>arcLength := (step al ^^ n) (arcLength st),
            solutions := (solutions st)[l := solutions st ! l @
              map (stepPoint al (arcLength st)) [0..<n]]\<rparr>)"
    by auto
  have p: "(solutionU al (step al ((step al ^^ n) (arcLength st))),
            solutionL al (step al ((step al ^^ n) (arcLength st)))) = stepPoint al (arcLength st) n"
    by (simp add: stepPoint_def)
  show ?case
    using Suc.prems(1) c
    by (simp add: for_each_append IH stepAndStore_converged p)
qed

lemma level0_converged:
  assumes "0 < length (solutions st)"
    and "\<forall>k<nat stp. converged al ((step al ^^ Suc k) (arcLength st))"
  shows "level0 al Force stp st =
     Inr (st\<lparr>arcLength := (step al ^^ nat stp) (arcLength st),
            solutions := (solutions st)[0 := solutions st ! 0 @
              (U0 Force, L0) # map (stepPoint al (arcLength st)) [0..<nat stp]]\<rparr>)"
  using assms
  by (simp add: level0_def push_point_def steps_converged)

text \<open>
  Claim C8 (scenario A): with \<open>dL0 = 0.5\<close>, \<open>step0 = 10\<close> and \<open>maxLevel = 0\<close>, and ten
  steps that converge, the run ends normally; level 0 then holds exactly 11 points, the
  reference point followed by the results of the ten steps, in order; the store has no
  level above 0 and the refinement queue is empty.
\<close>

theorem scenario_A_level0_has_11_points:
  assumes "\<forall>k<10. converged al ((step al ^^ Suc k) (setIndicator al 0 a0))"
  shows "\<exists>st. run al Force (1 / 2) 10 0 a0 = Some (Inr st)
            \<and> solutions st =
                [(U0 Force, L0) # map (stepPoint al (setIndicator al 0 a0)) [0..<10]]
            \<and> length (solutions st) = 1
            \<and> length (solutions st ! 0) = 11
            \<and> refIdx st = []"
proof -
  let ?st0 = "initial al 0 a0 :: 'a run_state"
  have "level0 al Force 10 ?st0 =
     Inr (?st0\<lparr>arcLength := (step al ^^ nat 10) (arcLength ?st0),
            solutions := (solutions ?st0)[0 := solutions ?st0 ! 0 @
              (U0 Force, L0) # map (stepPoint al (arcLength ?st0)) [0..<nat 10]]\<rparr>)"
    using assms by (intro level0_converged) (simp_all add: initial_def)
  then show ?thesis
    by (simp add: run_def build_def buildLevels_def collectPoints_def initial_def refine_Nil)
qed

theorem scenario_A_level0_has_11_points_witness:
  "\<exists>st. run (bumpIterator 0) [1] (1 / 2) 10 0 (walker0 (1 / 2)) = Some (Inr st)
        \<and> length (solutions st) = 1 \<and> length (solutions st ! 0) = 11 \<and> refIdx st = []"
  using scenario_A_level0_has_11_points [of "bumpIterator 0" "walker0 (1 / 2)" "[1]"]
  by (auto simp: bumpIterator_def)

section \<open>Invariants along the control flow\<close>

lemma and_then_inv:
  assumes "I (final r)" and "\<And>s. r = Inr s \<Longrightarrow> I s \<Longrightarrow> I (final (f s))"
  shows "I (final (and_then r f))"
  using assms by (cases r) auto

lemma for_each_inv:
  assumes "I st" and "\<And>x s. x \<in> set xs \<Longrightarrow> I s \<Longrightarrow> I (final (body x s))"
  shows "I (final (for_each xs body st))"
  using assms
proof (induction xs arbitrary: st)
  case Nil
  then show ?case by simp
next
  case (Cons x xs)
  have 1: "I (final (body x st))" by (simp add: Cons.prems)
  show ?case
  proof (cases "body x st")
    case (Inl a)
    with 1 show ?thesis by simp
  next
    case (Inr s)
    with 1 have "I s" by simp
    then have "I (final (for_each xs body s))"
      by (rule Cons.IH) (simp add: Cons.prems)
    with Inr show ?thesis by simp
  qed
qed

lemma at_point_inv:
  assumes "I st'" and "\<And>U L. at_point sols l i = Inr (U, L) \<Longrightarrow> I (final (g U L))"
  shows "I (final (case at_point sols l i of Inl e \<Rightarrow> Inl (e, st') | Inr (U, L) \<Rightarrow> g U L))"
  using assms by (cases "at_point sols l i") auto

lemma push_point_inv:
  assumes "I st"
    and "l < length (solutions st) \<Longrightarrow> I (st\<lparr>solutions := (solutions st)[l := solutions st ! l @ [pt]]\<rparr>)"
  shows "I (final (push_point l pt st))"
  using assms by (simp add: push_point_def)

lemma set_error_inv:
  assumes "I st" and "\<And>e'. I (st\<lparr>errors := e'\<rparr>)"
  shows "I (final (set_error l i e st))"
  using assms by (simp add: set_error_def)

lemma recordPoint_inv:
  assumes "I st" and "\<And>p. I (st\<lparr>points := p\<rparr>)"
  shows "I (final (recordPoint l st))"
  using assms by (simp add: recordPoint_def Let_def split: sum.splits)

lemma stepAndStore_inv:
  assumes "I st"
    and arc: "\<And>s a. I s \<Longrightarrow> I (s\<lparr>arcLength := a\<rparr>)"
    and push: "\<And>s pt. I s \<Longrightarrow> l < length (solutions s) \<Longrightarrow>
                 I (s\<lparr>solutions := (solutions s)[l := solutions s ! l @ [pt]]\<rparr>)"
  shows "I (final (stepAndStore al l st))"
proof -
  let ?st1 = "st\<lparr>arcLength := step al (arcLength st)\<rparr>"
  have 1: "I ?st1" by (rule arc [OF assms(1)])
  have "I (final (push_point l pt ?st1))" for pt
    by (rule push_point_inv [where I = I, OF 1]) (rule push [OF 1])
  with 1 show ?thesis
    unfolding stepAndStore_def Let_def by (cases "converged al (step al (arcLength st))") auto
qed

lemma refineInterval_inv:
  assumes "I st"
    and arc: "\<And>s a. I s \<Longrightarrow> I (s\<lparr>arcLength := a\<rparr>)"
    and err: "\<And>s e. I s \<Longrightarrow> I (s\<lparr>errors := e\<rparr>)"
    and que: "\<And>s q. I s \<Longrightarrow> I (s\<lparr>refIdx := q\<rparr>)"
    and push: "\<And>s pt. I s \<Longrightarrow> level < length (solutions s) \<Longrightarrow>
                 I (s\<lparr>solutions := (solutions s)[level := solutions s ! level @ [pt]]\<rparr>)"
  shows "I (final (refineInterval al Force dL level p st))"
  unfolding refineInterval_def Let_def
proof (rule at_point_inv [where I = I], goal_cases)
  case 1
  show ?case by (rule assms(1))
next
  case (2 Uold Lold)
  let ?st1 = "st\<lparr>arcLength := resetStep al (setSolution al Uold Lold (arcLength st))\<rparr>"
  have I1: "I ?st1" by (rule arc [OF assms(1)])
  show ?case
  proof (rule at_point_inv [where I = I], goal_cases)
    case 1
    show ?case by (rule I1)
  next
    case (2 Uguess Lguess)
    show ?case
      unfolding run_state.simps
    proof (rule and_then_inv [where I = I], goal_cases)
      case 1
      show ?case
        by (rule for_each_inv [where I = I], rule arc [OF I1])
           (rule stepAndStore_inv [where I = I], assumption, erule arc, erule push)
    next
      case (2 s)
      show ?case
      proof (rule at_point_inv [where I = I], goal_cases)
        case 1
        show ?case by (rule 2)
      next
        case (2 Uc Lc)
        show ?case
          by (rule and_then_inv [where I = I], rule set_error_inv [where I = I])
             (auto intro: \<open>I s\<close> err que)
      qed
    qed
  qed
qed

lemma resize_grow: "length xs \<le> n \<Longrightarrow> resize n d xs = xs @ replicate (n - length xs) d"
  by (simp add: resize_def)

lemma ensureLevels_inv:
  assumes "I st"
    and err: "\<And>s e. I s \<Longrightarrow> I (s\<lparr>errors := e\<rparr>)"
    and grow: "\<And>s n. I s \<Longrightarrow> I (s\<lparr>solutions := solutions s @ replicate n []\<rparr>)"
  shows "I (ensureLevels level st)"
proof -
  let ?st1 = "if solutionsGuard (length (solutions st)) level
              then st\<lparr>solutions := resize (level + 1) [] (solutions st)\<rparr> else st"
  have "I ?st1"
  proof (cases "solutionsGuard (length (solutions st)) level")
    case True
    then have "length (solutions st) \<le> level + 1"
      by (auto simp: solutionsGuard_def)
    then show ?thesis
      using True grow [OF assms(1)] by (simp add: resize_grow)
  next
    case False
    then show ?thesis by (simp add: assms(1))
  qed
  then show ?thesis
    unfolding ensureLevels_def Let_def by (auto intro: err)
qed

lemma processTask_inv:
  assumes "I st"
    and arc: "\<And>s a. I s \<Longrightarrow> I (s\<lparr>arcLength := a\<rparr>)"
    and err: "\<And>s e. I s \<Longrightarrow> I (s\<lparr>errors := e\<rparr>)"
    and pts: "\<And>s p. I s \<Longrightarrow> I (s\<lparr>points := p\<rparr>)"
    and grow: "\<And>s n. I s \<Longrightarrow> I (s\<lparr>solutions := solutions s @ replicate n []\<rparr>)"
    and push: "\<And>s pt. I s \<Longrightarrow> level + 1 < length (solutions s) \<Longrightarrow>
                 I (s\<lparr>solutions := (solutions s)[level + 1 := solutions s ! (level + 1) @ [pt]]\<rparr>)"
  shows "I (final (processTask al Force dL (level, reflevel, pindex) st))"
  unfolding processTask.simps Let_def
proof (rule at_point_inv [where I = I], goal_cases)
  case 1
  show ?case by (rule ensureLevels_inv [where I = I, OF assms(1)]) (erule err, erule grow)
next
  case (2 Uold Lold)
  have I2: "I (ensureLevels level st)"
    by (rule ensureLevels_inv [where I = I, OF assms(1)]) (erule err, erule grow)
  show ?case
  proof (rule and_then_inv [where I = I], goal_cases)
    case 1
    show ?case
      by (rule push_point_inv [where I = I], rule arc [OF I2], rule push [OF arc [OF I2]])
  next
    case (2 st4)
    show ?case
    proof (rule at_point_inv [where I = I], goal_cases)
      case 1
      show ?case by (rule 2)
    next
      case (2 Uguess Lguess)
      show ?case
      proof (rule and_then_inv [where I = I], goal_cases)
        case 1
        show ?case
        proof (rule for_each_inv [where I = I], goal_cases)
          case 1
          show ?case by (rule arc [OF \<open>I st4\<close>])
        next
          case (2 k s)
          show ?case
            by (rule and_then_inv [where I = I],
                rule stepAndStore_inv [where I = I, OF \<open>I s\<close>], erule arc, erule push, assumption,
                rule recordPoint_inv [where I = I], assumption, erule pts)
        qed
      next
        case (2 st6)
        show ?case
          by (rule at_point_inv [where I = I], rule 2)
             (rule set_error_inv [where I = I], rule 2, rule err [OF 2(2)])
      qed
    qed
  qed
qed

lemma level0_inv:
  assumes "I st"
    and ref: "\<And>s. I s \<Longrightarrow> 0 < length (solutions s) \<Longrightarrow>
                 J (s\<lparr>solutions := (solutions s)[0 := solutions s ! 0 @ [(U0 Force, L0)]]\<rparr>)"
    and arc: "\<And>s a. J s \<Longrightarrow> J (s\<lparr>arcLength := a\<rparr>)"
    and push: "\<And>s pt. J s \<Longrightarrow> 0 < length (solutions s) \<Longrightarrow>
                 J (s\<lparr>solutions := (solutions s)[0 := solutions s ! 0 @ [pt]]\<rparr>)"
    and JI: "\<And>s. J s \<Longrightarrow> I s"
  shows "I (final (level0 al Force stp st))"
proof (cases "0 < length (solutions st)")
  case False
  then show ?thesis
    by (simp add: level0_def push_point_def assms(1))
next
  case True
  let ?st1 = "st\<lparr>solutions := (solutions st)[0 := solutions st ! 0 @ [(U0 Force, L0)]]\<rparr>"
  have "J ?st1" by (rule ref [OF assms(1) True])
  then have "J (final (for_each [0..<nat (stp * 2 ^ 0)] (\<lambda>k. stepAndStore al 0) ?st1))"
    by (rule for_each_inv [where I = J])
       (rule stepAndStore_inv [where I = J], assumption, erule arc, erule push)
  then show ?thesis
    using True by (simp add: level0_def push_point_def JI)
qed

lemma push_point_then_inv:
  assumes "I st"
    and "l < length (solutions st) \<Longrightarrow>
           I (final (f (st\<lparr>solutions := (solutions st)[l := solutions st ! l @ [pt]]\<rparr>)))"
  shows "I (final (and_then (push_point l pt st) f))"
  using assms by (simp add: push_point_def)

lemma buildLevel_inv:
  assumes "I st"
    and errI: "\<And>s e. I s \<Longrightarrow> I (s\<lparr>errors := e\<rparr>)"
    and ref: "\<And>s. I s \<Longrightarrow> level < length (solutions s) \<Longrightarrow>
                 J (s\<lparr>solutions := (solutions s)[level := solutions s ! level @ [(U0 Force, L0)]]\<rparr>)"
    and arc: "\<And>s a. J s \<Longrightarrow> J (s\<lparr>arcLength := a\<rparr>)"
    and err: "\<And>s e. J s \<Longrightarrow> J (s\<lparr>errors := e\<rparr>)"
    and que: "\<And>s q. J s \<Longrightarrow> J (s\<lparr>refIdx := q\<rparr>)"
    and push: "\<And>s pt. J s \<Longrightarrow> level < length (solutions s) \<Longrightarrow>
                 J (s\<lparr>solutions := (solutions s)[level := solutions s ! level @ [pt]]\<rparr>)"
    and JI: "\<And>s. J s \<Longrightarrow> I s"
    and new: "\<And>s. J s \<Longrightarrow> I (s\<lparr>solutions := solutions s @ [[]]\<rparr>)"
  shows "I (final (buildLevel al Force dL level st))"
proof (cases "level - 1 < length (errors st) \<and> level - 1 < length (solutions st)")
  case False
  show ?thesis
    unfolding buildLevel_def by (simp only: False if_False final_Inl assms(1))
next
  case guard: True
  let ?st1 = "st\<lparr>errors := (errors st)[level - 1 :=
                 resize (length (solutions st ! (level - 1))) 0 (errors st ! (level - 1))]\<rparr>"
  let ?st2 = "?st1\<lparr>solutions := (solutions ?st1)[level := solutions ?st1 ! level @ [(U0 Force, L0)]]\<rparr>"
  let ?st3 = "?st2\<lparr>arcLength := setLength al (dL / 2 ^ level) (arcLength ?st2)\<rparr>"
  have I1: "I ?st1" by (rule errI [OF assms(1)])
  have body: "I (final (and_then (push_point level (U0 Force, L0) ?st1) (\<lambda>st2.
             let st3 = st2\<lparr>arcLength := setLength al (dL / 2 ^ level) (arcLength st2)\<rparr>;
                 n = length (solutions st3 ! (level - 1))
             in if n = 0 then Inl (OutOfRange, st3)
                else and_then (for_each [0..<n - 1] (refineInterval al Force dL level) st3)
                       (\<lambda>st4. Inr (st4\<lparr>solutions := solutions st4 @ [[]]\<rparr>)))))"
  proof (rule push_point_then_inv [where I = I, OF I1])
    assume lt: "level < length (solutions ?st1)"
    have J3: "J ?st3" by (rule arc, rule ref [OF I1 lt])
    have loop: "J (final (for_each xs (refineInterval al Force dL level) ?st3))" for xs
      by (rule for_each_inv [where I = J, OF J3])
         (rule refineInterval_inv [where I = J], assumption, erule arc, erule err, erule que, erule push)
    have fin: "I (final (and_then (for_each xs (refineInterval al Force dL level) ?st3)
                       (\<lambda>st4. Inr (st4\<lparr>solutions := solutions st4 @ [[]]\<rparr>))))" for xs
    proof (rule and_then_inv [where I = I], goal_cases)
      case 1
      show ?case by (rule JI, rule loop)
    next
      case (2 s)
      from loop [of xs] 2(1) have "J s" by simp
      then show ?case by (simp add: new)
    qed
    show "I (final (let st3 = ?st2\<lparr>arcLength := setLength al (dL / 2 ^ level) (arcLength ?st2)\<rparr>;
                 n = length (solutions st3 ! (level - 1))
             in if n = 0 then Inl (OutOfRange, st3)
                else and_then (for_each [0..<n - 1] (refineInterval al Force dL level) st3)
                       (\<lambda>st4. Inr (st4\<lparr>solutions := solutions st4 @ [[]]\<rparr>))))"
      unfolding Let_def
      by (cases "length (solutions ?st3 ! (level - 1)) = 0")
         (simp_all only: if_True if_False simp_thms final_Inl JI [OF J3] fin)
  qed
  from guard have g: "(level - 1 < length (errors st) \<and> level - 1 < length (solutions st)) = True"
    by simp
  show ?thesis
    unfolding buildLevel_def g using body by (simp only: if_True Let_def)
qed

lemma processTask_refIdx: "refIdx (final (processTask al Force dL t st)) = refIdx st"
proof -
  obtain level reflevel pindex where t: "t = (level, reflevel, pindex)"
    by (cases t) auto
  show ?thesis
    unfolding t by (rule processTask_inv [where I = "\<lambda>s. refIdx s = refIdx st"]) simp_all
qed

lemma refine_as_for_each:
  "refine al Force dL st =
     Some (for_each (refIdx st)
             (\<lambda>t s. processTask al Force dL t (s\<lparr>refIdx := tl (refIdx s)\<rparr>)) st)"
proof (induction "refIdx st" arbitrary: st)
  case Nil
  then show ?case by (simp add: refine_Nil)
next
  case (Cons t q)
  let ?r = "processTask al Force dL t (st\<lparr>refIdx := q\<rparr>)"
  from Cons(2) have q: "refIdx st = t # q" by simp
  show ?case
  proof (cases ?r)
    case (Inl a)
    then show ?thesis
      by (subst refine.simps) (simp add: q)
  next
    case (Inr st')
    have "refIdx (final ?r) = q"
      by (simp add: processTask_refIdx)
    with Inr have q': "q = refIdx st'" by simp
    from Cons(1) [OF q'] Inr show ?thesis
      by (subst refine.simps) (simp add: q q' [symmetric])
  qed
qed

lemma for_each_Inr_queue:
  assumes "for_each q (\<lambda>t s. processTask al Force dL t (s\<lparr>refIdx := tl (refIdx s)\<rparr>)) st = Inr st'"
    and "refIdx st = q"
  shows "refIdx st' = []"
  using assms
proof (induction q arbitrary: st)
  case Nil
  then show ?case by simp
next
  case (Cons t q)
  let ?r = "processTask al Force dL t (st\<lparr>refIdx := q\<rparr>)"
  from Cons.prems obtain s where s: "?r = Inr s"
    and rest: "for_each q (\<lambda>t s. processTask al Force dL t (s\<lparr>refIdx := tl (refIdx s)\<rparr>)) s = Inr st'"
    by (auto split: sum.splits)
  have "refIdx (final ?r) = q" by (simp add: processTask_refIdx)
  with s have "refIdx s = q" by simp
  with rest show ?case by (rule Cons.IH)
qed

text \<open>
  Claim C10, amended: the refinement queue loop always terminates. It is the bounded loop
  over the tasks that were in the queue when it started: each of them is taken off the queue
  and processed once, in order, unless an earlier task has stopped the run (a step that
  does not converge, or an access out of range). Processing a task never enqueues a task,
  whatever error it computes, so the loop executes at most as many iterations as there
  were tasks at the start, and exactly as many, ending with an empty queue, when no task
  stops the run.
\<close>

theorem refine_loop_bounded:
  "refine al Force dL st =
     Some (for_each (refIdx st)
             (\<lambda>t s. processTask al Force dL t (s\<lparr>refIdx := tl (refIdx s)\<rparr>)) st)
   \<and> refIdx (final (processTask al Force dL t st)) = refIdx st
   \<and> (\<forall>st'. refine al Force dL st = Some (Inr st') \<longrightarrow> refIdx st' = [])"
proof (intro conjI allI impI)
  fix st'
  assume "refine al Force dL st = Some (Inr st')"
  then have "for_each (refIdx st)
      (\<lambda>t s. processTask al Force dL t (s\<lparr>refIdx := tl (refIdx s)\<rparr>)) st = Inr st'"
    by (simp add: refine_as_for_each)
  then show "refIdx st' = []"
    by (rule for_each_Inr_queue) (rule refl)
qed (rule refine_as_for_each, rule processTask_refIdx)

section \<open>What a finished interval and a finished task have done\<close>

lemma stepAndStore_Inr:
  assumes "stepAndStore al l st = Inr st'"
  shows "converged al (step al (arcLength st)) \<and> l < length (solutions st)
       \<and> st' = st\<lparr>arcLength := step al (arcLength st),
                   solutions := (solutions st)[l := solutions st ! l @
                                  [pointOf al (step al (arcLength st))]]\<rparr>"
  using assms
  by (auto simp: stepAndStore_def push_point_def Let_def pointOf_def split: if_splits)

lemma refineInterval_Inr:
  assumes "refineInterval al Force dL level p st = Inr st'"
  shows "\<exists>Uold Lold Ug Lg Uc Lc a1 a2 e.
      at_point (solutions st) (level - 1) p = Inr (Uold, Lold)
    \<and> at_point (solutions st) (level - 1) (p + 1) = Inr (Ug, Lg)
    \<and> a1 = step al (setInitialGuess al Ug Lg (resetStep al (setSolution al Uold Lold (arcLength st))))
    \<and> a2 = step al a1 \<and> converged al a1 \<and> converged al a2
    \<and> level < length (solutions st)
    \<and> at_point ((solutions st)[level := solutions st ! level @ [pointOf al a1, pointOf al a2]])
         (level - 1) (p + 1) = Inr (Uc, Lc)
    \<and> e = errorEstimate Force Uc Lc (solutionU al a2) (solutionL al a2) (dL / 2 ^ level)
    \<and> level - 1 < length (errors st) \<and> p < length (errors st ! (level - 1))
    \<and> st' = st\<lparr>arcLength := a2,
               solutions := (solutions st)[level := solutions st ! level @ [pointOf al a1, pointOf al a2]],
               errors := (errors st)[level - 1 := (errors st ! (level - 1))[p := e]],
               refIdx := refIdx st @
                 (if e > ptol
                  then [(level + 1, level - 1, p), (level + 1, level, length (solutions st ! level))]
                  else [])\<rparr>"
proof -
  from assms obtain Uold Lold where 1: "at_point (solutions st) (level - 1) p = Inr (Uold, Lold)"
    unfolding refineInterval_def by (auto split: sum.splits)
  let ?st1 = "st\<lparr>arcLength := resetStep al (setSolution al Uold Lold (arcLength st))\<rparr>"
  from assms 1 obtain Ug Lg where 2: "at_point (solutions st) (level - 1) (p + 1) = Inr (Ug, Lg)"
    unfolding refineInterval_def by (auto simp: Let_def split: sum.splits)
  let ?st2 = "?st1\<lparr>arcLength := setInitialGuess al Ug Lg (arcLength ?st1)\<rparr>"
  from assms 1 2 obtain st3 where 3: "for_each [0..<2] (\<lambda>k. stepAndStore al level) ?st2 = Inr st3"
    unfolding refineInterval_def by (auto simp: Let_def and_then_def split: sum.splits)
  then obtain sa where sa: "stepAndStore al level ?st2 = Inr sa"
    and sb: "stepAndStore al level sa = Inr st3"
    by (auto simp: for_each_two and_then_def split: sum.splits)
  let ?a1 = "step al (setInitialGuess al Ug Lg (resetStep al (setSolution al Uold Lold (arcLength st))))"
  let ?a2 = "step al ?a1"
  from stepAndStore_Inr [OF sa] have c1: "converged al ?a1" and lt: "level < length (solutions st)"
    and sa_eq: "sa = ?st2\<lparr>arcLength := ?a1,
        solutions := (solutions st)[level := solutions st ! level @ [pointOf al ?a1]]\<rparr>"
    by simp_all
  from stepAndStore_Inr [OF sb] have c2: "converged al ?a2"
    and st3_eq: "st3 = st\<lparr>arcLength := ?a2,
        solutions := (solutions st)[level := solutions st ! level @ [pointOf al ?a1, pointOf al ?a2]]\<rparr>"
    using lt by (simp_all add: sa_eq)
  from assms 1 2 3 obtain Uc Lc where 4: "at_point (solutions st3) (level - 1) (p + 1) = Inr (Uc, Lc)"
    unfolding refineInterval_def by (auto simp: Let_def split: sum.splits)
  let ?e = "errorEstimate Force Uc Lc (solutionU al ?a2) (solutionL al ?a2) (dL / 2 ^ level)"
  from assms 1 2 3 4 obtain st4 where 5: "set_error (level - 1) p ?e st3 = Inr st4"
    and 6: "st' = (if ?e > ptol
                   then st4\<lparr>refIdx := refIdx st4 @
                          [(level + 1, level - 1, p),
                           (level + 1, level, length (solutions st4 ! level) - 2)]\<rparr>
                   else st4)"
    unfolding refineInterval_def
    by (auto simp: Let_def st3_eq and_then_def split: sum.splits if_splits)
  from 5 have e1: "level - 1 < length (errors st)" and e2: "p < length (errors st ! (level - 1))"
    and st4_eq: "st4 = st3\<lparr>errors := (errors st)[level - 1 := (errors st ! (level - 1))[p := ?e]]\<rparr>"
    by (auto simp: set_error_def st3_eq split: if_splits)
  have "st' = st\<lparr>arcLength := ?a2,
               solutions := (solutions st)[level := solutions st ! level @ [pointOf al ?a1, pointOf al ?a2]],
               errors := (errors st)[level - 1 := (errors st ! (level - 1))[p := ?e]],
               refIdx := refIdx st @
                 (if ?e > ptol
                  then [(level + 1, level - 1, p), (level + 1, level, length (solutions st ! level))]
                  else [])\<rparr>"
    using lt by (simp add: 6 st4_eq st3_eq)
  with 1 2 c1 c2 lt 4 e1 e2 show ?thesis
    by (auto simp: st3_eq)
qed


lemma recordPoint_Inr:
  assumes "recordPoint l st = Inr st'"
  shows "l < length (solutions st) \<and> length (solutions st) - 1 < length (solutions st ! l)
       \<and> st' = st\<lparr>points := points st @ [(l, length (solutions st) - 1)]\<rparr>"
  using assms
  by (auto simp: recordPoint_def at_point_def Let_def split: sum.splits if_splits)

lemma ensureLevels_fields [simp]:
  "arcLength (ensureLevels level st) = arcLength st"
  "refIdx (ensureLevels level st) = refIdx st"
  "points (ensureLevels level st) = points st"
  by (simp_all add: ensureLevels_def Let_def)

lemma ensureLevels_solutions:
  "\<exists>k. solutions (ensureLevels level st) = solutions st @ replicate k []"
proof (cases "solutionsGuard (length (solutions st)) level")
  case True
  then have "length (solutions st) \<le> level + 1"
    by (auto simp: solutionsGuard_def)
  then have "resize (level + 1) [] (solutions st)
               = solutions st @ replicate (level + 1 - length (solutions st)) []"
    by (rule resize_grow)
  with True show ?thesis
    by (auto simp: ensureLevels_def Let_def)
next
  case False
  then have "solutions (ensureLevels level st) = solutions st @ replicate 0 []"
    by (simp add: ensureLevels_def Let_def)
  then show ?thesis by blast
qed

lemma levelPoints_ensureLevels:
  "l < length (solutions (ensureLevels level st)) \<Longrightarrow>
     solutions (ensureLevels level st) ! l = levelPoints (solutions st) l"
  using ensureLevels_solutions [of level st]
  by (auto simp: levelPoints_def nth_append)

lemma processTask_Inr:
  assumes "processTask al Force dL (level, reflevel, pindex) st = Inr st'"
  shows "\<exists>Uold Lold Ug Lg Uc Lc a0 a1 a2 sols e.
      sols = solutions (ensureLevels level st)
    \<and> at_point sols reflevel pindex = Inr (Uold, Lold)
    \<and> level + 1 < length sols
    \<and> at_point (sols[level + 1 := sols ! (level + 1) @ [(Uold, Lold)]]) reflevel (pindex + 1)
         = Inr (Ug, Lg)
    \<and> a0 = setLength al (dL / 2 ^ level)
             (setInitialGuess al Ug Lg (resetStep al (setSolution al Uold Lold (arcLength st))))
    \<and> a1 = step al a0 \<and> a2 = step al a1 \<and> converged al a1 \<and> converged al a2
    \<and> at_point (sols[level + 1 := sols ! (level + 1) @ [(Uold, Lold), pointOf al a1, pointOf al a2]])
         level (pindex + 1) = Inr (Uc, Lc)
    \<and> e = errorEstimate Force Uc Lc (solutionU al a2) (solutionL al a2) (dL / 2 ^ level)
    \<and> level < length (errors (ensureLevels level st))
    \<and> pindex < length (errors (ensureLevels level st) ! level)
    \<and> st' = (ensureLevels level st)\<lparr>arcLength := a2,
               solutions := sols[level + 1 := sols ! (level + 1) @
                                   [(Uold, Lold), pointOf al a1, pointOf al a2]],
               points := points st @ [(level + 1, length sols - 1), (level + 1, length sols - 1)],
               errors := (errors (ensureLevels level st))
                           [level := (errors (ensureLevels level st) ! level)[pindex := e]]\<rparr>"
proof -
  let ?st2 = "ensureLevels level st"
  let ?sols = "solutions ?st2"
  from assms obtain Uold Lold where 1: "at_point ?sols reflevel pindex = Inr (Uold, Lold)"
    by (auto simp: Let_def split: sum.splits)
  let ?st3 = "?st2\<lparr>arcLength := resetStep al (setSolution al Uold Lold (arcLength ?st2))\<rparr>"
  from assms 1 obtain st4 where 2: "push_point (level + 1) (Uold, Lold) ?st3 = Inr st4"
    by (auto simp: Let_def and_then_def split: sum.splits)
  then have lt: "level + 1 < length ?sols"
    and st4_eq: "st4 = ?st3\<lparr>solutions := ?sols[level + 1 := ?sols ! (level + 1) @ [(Uold, Lold)]]\<rparr>"
    by (auto simp: push_point_def split: if_splits)
  from assms 1 2 obtain Ug Lg where 3: "at_point (solutions st4) reflevel (pindex + 1) = Inr (Ug, Lg)"
    by (auto simp: Let_def split: sum.splits)
  let ?a0 = "setLength al (dL / 2 ^ level)
               (setInitialGuess al Ug Lg (resetStep al (setSolution al Uold Lold (arcLength st))))"
  let ?a1 = "step al ?a0"
  let ?a2 = "step al ?a1"
  let ?st5 = "st4\<lparr>arcLength := ?a0\<rparr>"
  let ?body = "\<lambda>(k::nat) s. and_then (stepAndStore al (level + 1) s) (recordPoint (level + 1))"
  from assms 1 2 3 obtain st6 where 4: "for_each [0..<2] ?body ?st5 = Inr st6"
    by (auto simp: Let_def st4_eq and_then_def split: sum.splits)
  then obtain sa sa' sb where sa: "stepAndStore al (level + 1) ?st5 = Inr sa"
    and ra: "recordPoint (level + 1) sa = Inr sa'"
    and sb: "stepAndStore al (level + 1) sa' = Inr sb"
    and rb: "recordPoint (level + 1) sb = Inr st6"
    by (auto simp: for_each_two and_then_def split: sum.splits)
  from stepAndStore_Inr [OF sa] have c1: "converged al ?a1"
    and sa_eq: "sa = ?st2\<lparr>arcLength := ?a1,
        solutions := ?sols[level + 1 := ?sols ! (level + 1) @ [(Uold, Lold), pointOf al ?a1]]\<rparr>"
    using lt by (simp_all add: st4_eq)
  from recordPoint_Inr [OF ra] have sa'_eq:
    "sa' = sa\<lparr>points := points st @ [(level + 1, length ?sols - 1)]\<rparr>"
    by (simp add: sa_eq)
  from stepAndStore_Inr [OF sb] have c2: "converged al ?a2"
    and sb_eq: "sb = ?st2\<lparr>arcLength := ?a2,
        solutions := ?sols[level + 1 := ?sols ! (level + 1) @
                             [(Uold, Lold), pointOf al ?a1, pointOf al ?a2]],
        points := points st @ [(level + 1, length ?sols - 1)]\<rparr>"
    using lt by (simp_all add: sa'_eq sa_eq)
  from recordPoint_Inr [OF rb] have st6_eq:
    "st6 = ?st2\<lparr>arcLength := ?a2,
        solutions := ?sols[level + 1 := ?sols ! (level + 1) @
                             [(Uold, Lold), pointOf al ?a1, pointOf al ?a2]],
        points := points st @ [(level + 1, length ?sols - 1), (level + 1, length ?sols - 1)]\<rparr>"
    by (simp add: sb_eq)
  from assms 1 2 3 4 obtain Uc Lc where 5: "at_point (solutions st6) level (pindex + 1) = Inr (Uc, Lc)"
    by (auto simp: Let_def st4_eq and_then_def split: sum.splits)
  let ?e = "errorEstimate Force Uc Lc (solutionU al ?a2) (solutionL al ?a2) (dL / 2 ^ level)"
  from assms 1 2 3 4 5 have 6: "set_error level pindex ?e st6 = Inr st'"
    by (auto simp: Let_def st4_eq st6_eq and_then_def split: sum.splits)
  then have e1: "level < length (errors ?st2)" and e2: "pindex < length (errors ?st2 ! level)"
    and st'_eq: "st' = st6\<lparr>errors := (errors ?st2)[level := (errors ?st2 ! level)[pindex := ?e]]\<rparr>"
    by (auto simp: set_error_def st6_eq split: if_splits)
  from 3 have p3: "at_point (?sols[level + 1 := ?sols ! (level + 1) @ [(Uold, Lold)]])
                     reflevel (pindex + 1) = Inr (Ug, Lg)"
    by (simp add: st4_eq)
  from 5 have p5: "at_point (?sols[level + 1 := ?sols ! (level + 1) @
                      [(Uold, Lold), pointOf al ?a1, pointOf al ?a2]]) level (pindex + 1) = Inr (Uc, Lc)"
    by (simp add: st6_eq)
  show ?thesis
    using 1 lt p3 c1 c2 p5 e1 e2 by (simp add: st'_eq st6_eq)
qed

section \<open>Three concrete runs\<close>

lemmas eval_defs = build_def initial_def level0_def buildLevels_def buildLevel_def
  refineInterval_def collectPoints_def ensureLevels_def solutionsGuard_def errorsGuard_def
  stepAndStore_def recordPoint_def push_point_def at_point_def set_error_def
  resize_def U0_def L0_def errorEstimate_def ptol_def bumpIterator_def walker0_def
  upt_rec Let_def eval_nat_numeral

lemma build_A: "build (bumpIterator 0) [1] 1 1 3 (walker0 1) = Inr builtA"
  by (simp add: eval_defs builtA_def)

lemma task1_A:
  "processTask (bumpIterator 0) [1] 1 (2, 0, 0) (builtA\<lparr>refIdx := [(2, 1, 1)]\<rparr>) = Inr task1A"
  by (simp add: eval_defs builtA_def task1A_def)

lemma task2_A:
  "processTask (bumpIterator 0) [1] 1 (2, 1, 1) (task1A\<lparr>refIdx := []\<rparr>) = Inr doneA"
  by (simp add: eval_defs task1A_def doneA_def)

lemma refIdx_builtA: "refIdx builtA = [(2, 0, 0), (2, 1, 1)]"
  by (simp add: builtA_def)

lemma refIdx_task1A: "refIdx task1A = [(2, 1, 1)]"
  by (simp add: task1A_def)

lemma refIdx_doneA: "refIdx doneA = []"
  by (simp add: doneA_def)

lemma refine_A: "refine (bumpIterator 0) [1] 1 builtA = Some (Inr doneA)"
  by (simp only: refine_as_for_each refIdx_builtA refIdx_task1A for_each.simps list.sel
        task1_A task2_A sum.case)

lemma run_A: "run (bumpIterator 0) [1] 1 1 3 (walker0 1) = Some (Inr doneA)"
  by (simp only: run_def build_A refine_A sum.case)

lemma build_B: "build (bumpIterator 0) [1] 1 1 2 (walker0 1) = Inr builtB"
  by (simp add: eval_defs builtB_def)

lemma task1_B:
  "processTask (bumpIterator 0) [1] 1 (2, 0, 0) (builtB\<lparr>refIdx := [(2, 1, 1)]\<rparr>)
     = Inl (OutOfRange, abortB)"
  by (simp add: eval_defs builtB_def abortB_def)

lemma refIdx_builtB: "refIdx builtB = [(2, 0, 0), (2, 1, 1)]"
  by (simp add: builtB_def)

lemma refine_B: "refine (bumpIterator 0) [1] 1 builtB = Some (Inl (OutOfRange, abortB))"
  by (simp only: refine_as_for_each refIdx_builtB for_each.simps list.sel task1_B sum.case)

lemma run_B: "run (bumpIterator 0) [1] 1 1 2 (walker0 1) = Some (Inl (OutOfRange, abortB))"
  by (simp only: run_def build_B refine_B sum.case)

lemma build_C: "build (bumpIterator 1) [1] 1 2 2 (walker0 1) = Inr builtC"
  by (simp add: eval_defs builtC_def)

lemma task1_C:
  "processTask (bumpIterator 1) [1] 1 (2, 0, 1) (builtC\<lparr>refIdx := [(2, 1, 3)]\<rparr>)
     = Inl (OutOfRange, abortC)"
  by (simp add: eval_defs builtC_def abortC_def)

lemma refIdx_builtC: "refIdx builtC = [(2, 0, 1), (2, 1, 3)]"
  by (simp add: builtC_def)

lemma refine_C: "refine (bumpIterator 1) [1] 1 builtC = Some (Inl (OutOfRange, abortC))"
  by (simp only: refine_as_for_each refIdx_builtC for_each.simps list.sel task1_C sum.case)

lemma run_C: "run (bumpIterator 1) [1] 1 2 2 (walker0 1) = Some (Inl (OutOfRange, abortC))"
  by (simp only: run_def build_C refine_C sum.case)

lemma interval_A:
  "refineInterval (bumpIterator 0) [1] 1 1 0 beforeIntervalA = Inr afterIntervalA"
  by (simp add: eval_defs beforeIntervalA_def afterIntervalA_def)

section \<open>The refinement queue loop\<close>

text \<open>
  Claim C10, as stated, fails when a task stops the run: in run B (the default
  \<open>maxLevel = 2\<close>) the loop is entered with two tasks queued, and the first task ends in the
  \<open>std::out_of_range\<close> of line 530; the second task is never taken off the queue.
\<close>

theorem refine_loop_stops_early_counterexample:
  "build (bumpIterator 0) [1] 1 1 2 (walker0 1) = Inr builtB
   \<and> length (refIdx builtB) = 2
   \<and> run (bumpIterator 0) [1] 1 1 2 (walker0 1) = Some (Inl (OutOfRange, abortB))
   \<and> refIdx abortB = [(2, 1, 1)]"
  by (intro conjI, rule build_B, simp add: refIdx_builtB, rule run_B, simp add: abortB_def)

text \<open>Run A is a run in which no task stops the run: both queued tasks are processed, in
  order, and the loop ends with an empty queue.\<close>

theorem refine_loop_bounded_witness:
  "refine (bumpIterator 0) [1] 1 builtA = Some (Inr doneA)
   \<and> length (refIdx builtA) = 2 \<and> refIdx doneA = []"
  using refine_loop_bounded [of "bumpIterator 0" "[1]" 1 builtA "(2, 0, 0)"] refine_A
  by (simp add: refIdx_builtA)

section \<open>Which intervals and tasks enqueue new tasks\<close>

text \<open>
  Claim C3, amended: in the level-by-level pass (lines 411--460), refining an interval
  \<open>p\<close> of level \<open>level - 1\<close> appends a midpoint and an endpoint to level \<open>level\<close>; if the
  error stored for the interval exceeds \<open>ptol\<close>, exactly two tasks are enqueued,
  \<open>(level + 1, level - 1, p)\<close> and \<open>(level + 1, level, index of the new midpoint)\<close>, and
  none otherwise. A task taken from the refinement queue never enqueues anything, whatever
  its error (the push of line 540 is commented out).
\<close>

theorem tasks_enqueued_by_level_pass_only:
  "(\<forall>st'. refineInterval al Force dL level p st = Inr st' \<longrightarrow>
       (\<exists>mid end. solutions st' ! level = solutions st ! level @ [mid, end])
     \<and> refIdx st' = refIdx st @
         (if errors st' ! (level - 1) ! p > ptol
          then [(level + 1, level - 1, p), (level + 1, level, length (solutions st ! level))]
          else []))
   \<and> refIdx (final (processTask al Force dL t st)) = refIdx st"
proof (intro conjI allI impI)
  fix st'
  assume a: "refineInterval al Force dL level p st = Inr st'"
  from refineInterval_Inr [OF a] obtain a1 a2 e where
    lt: "level < length (solutions st)"
    and e1: "level - 1 < length (errors st)" and e2: "p < length (errors st ! (level - 1))"
    and st': "st' = st\<lparr>arcLength := a2,
               solutions := (solutions st)[level := solutions st ! level @ [pointOf al a1, pointOf al a2]],
               errors := (errors st)[level - 1 := (errors st ! (level - 1))[p := e]],
               refIdx := refIdx st @
                 (if e > ptol
                  then [(level + 1, level - 1, p), (level + 1, level, length (solutions st ! level))]
                  else [])\<rparr>"
    by blast
  from lt show "\<exists>mid end. solutions st' ! level = solutions st ! level @ [mid, end]"
    by (simp add: st')
  from e1 e2 have "errors st' ! (level - 1) ! p = e"
    by (simp add: st')
  then show "refIdx st' = refIdx st @
         (if errors st' ! (level - 1) ! p > ptol
          then [(level + 1, level - 1, p), (level + 1, level, length (solutions st ! level))]
          else [])"
    by (simp add: st')
qed (rule processTask_refIdx)

theorem tasks_enqueued_by_level_pass_only_witness:
  "refineInterval (bumpIterator 0) [1] 1 1 0 beforeIntervalA = Inr afterIntervalA
   \<and> ptol < errors afterIntervalA ! 0 ! 0
   \<and> refIdx afterIntervalA = refIdx beforeIntervalA @ [(2, 0, 0), (2, 1, 1)]"
  using tasks_enqueued_by_level_pass_only
          [of "bumpIterator 0" "[1]" 1 1 0 beforeIntervalA "(2, 0, 0)"] interval_A
  by (simp add: beforeIntervalA_def afterIntervalA_def ptol_def)

text \<open>
  Claim C3, as stated, fails for the tasks of the queue: the first task of run A stores the
  error 1, above \<open>ptol\<close>, and leaves the queue as it found it.
\<close>

theorem task_over_ptol_enqueues_nothing_counterexample:
  "processTask (bumpIterator 0) [1] 1 (2, 0, 0) (builtA\<lparr>refIdx := [(2, 1, 1)]\<rparr>) = Inr task1A
   \<and> ptol < errors task1A ! 2 ! 0
   \<and> refIdx task1A = [(2, 1, 1)]"
  by (intro conjI, rule task1_A) (simp_all add: task1A_def ptol_def)

section \<open>Points appended by a task\<close>

text \<open>
  Claim C2, amended: a task that finishes has executed exactly two \<open>step()\<close> calls, one
  after the other from the iterator prepared by \<open>setSolution\<close>, \<open>resetStep\<close>,
  \<open>setInitialGuess\<close> and \<open>setLength\<close>, and both converged; it has appended exactly three
  points to one level of the store, a copy of its start point followed by the results of the
  two steps, and no other level has changed (levels that did not exist before are empty).
\<close>

theorem task_appends_three_points:
  assumes "processTask al Force dL (level, reflevel, pindex) st = Inr st'"
  shows "\<exists>start Ug Lg a0 a1 a2 l.
      pindex < length (levelPoints (solutions st) reflevel)
    \<and> start = levelPoints (solutions st) reflevel ! pindex
    \<and> a0 = setLength al (dL / 2 ^ level)
             (setInitialGuess al Ug Lg (resetStep al (setSolution al (fst start) (snd start) (arcLength st))))
    \<and> a1 = step al a0 \<and> a2 = step al a1 \<and> converged al a1 \<and> converged al a2
    \<and> arcLength st' = a2
    \<and> length (solutions st) \<le> length (solutions st') \<and> l < length (solutions st')
    \<and> solutions st' ! l = levelPoints (solutions st) l @ [start, pointOf al a1, pointOf al a2]
    \<and> (\<forall>l' < length (solutions st'). l' \<noteq> l \<longrightarrow>
           solutions st' ! l' = levelPoints (solutions st) l')"
proof -
  let ?st2 = "ensureLevels level st"
  let ?sols = "solutions ?st2"
  from processTask_Inr [OF assms] obtain Uold Lold Ug Lg a1 a2 e where
    1: "at_point ?sols reflevel pindex = Inr (Uold, Lold)"
    and lt: "level + 1 < length ?sols"
    and a1: "a1 = step al (setLength al (dL / 2 ^ level)
             (setInitialGuess al Ug Lg (resetStep al (setSolution al Uold Lold (arcLength st)))))"
    and a2: "a2 = step al a1" and c: "converged al a1" "converged al a2"
    and st': "st' = ?st2\<lparr>arcLength := a2,
               solutions := ?sols[level + 1 := ?sols ! (level + 1) @
                                   [(Uold, Lold), pointOf al a1, pointOf al a2]],
               points := points st @ [(level + 1, length ?sols - 1), (level + 1, length ?sols - 1)],
               errors := (errors ?st2)[level := (errors ?st2 ! level)[pindex := e]]\<rparr>"
    by blast
  from 1 have r: "reflevel < length ?sols" and pi: "pindex < length (?sols ! reflevel)"
    and start: "?sols ! reflevel ! pindex = (Uold, Lold)"
    by (auto simp: at_point_def split: if_splits)
  from r have lp: "?sols ! reflevel = levelPoints (solutions st) reflevel"
    by (rule levelPoints_ensureLevels)
  have len: "length (solutions st) \<le> length ?sols"
    using ensureLevels_solutions [of level st] by auto
  have sols': "solutions st' = ?sols[level + 1 := ?sols ! (level + 1) @
                                   [(Uold, Lold), pointOf al a1, pointOf al a2]]"
    by (simp add: st')
  have other: "\<forall>l' < length (solutions st'). l' \<noteq> level + 1 \<longrightarrow>
           solutions st' ! l' = levelPoints (solutions st) l'"
    by (simp add: sols' levelPoints_ensureLevels)
  have this_level: "solutions st' ! (level + 1) =
      levelPoints (solutions st) (level + 1) @ [(Uold, Lold), pointOf al a1, pointOf al a2]"
    using lt by (simp add: sols' levelPoints_ensureLevels)
  have arc: "arcLength st' = a2" by (simp add: st')
  show ?thesis
    apply (rule exI [of _ "(Uold, Lold)"], rule exI [of _ Ug], rule exI [of _ Lg])
    apply (rule exI [of _ "setLength al (dL / 2 ^ level)
             (setInitialGuess al Ug Lg (resetStep al (setSolution al Uold Lold (arcLength st))))"])
    apply (rule exI [of _ a1], rule exI [of _ a2], rule exI [of _ "level + 1"])
    using pi start lp a1 a2 c arc len lt other this_level
    apply (simp add: sols')
    done
qed

theorem task_appends_three_points_witness:
  "processTask (bumpIterator 0) [1] 1 (2, 0, 0) (builtA\<lparr>refIdx := [(2, 1, 1)]\<rparr>) = Inr task1A
   \<and> (\<exists>l start p1 p2. l < length (solutions task1A)
         \<and> solutions task1A ! l = levelPoints (solutions builtA) l @ [start, p1, p2])"
proof -
  from task_appends_three_points [OF task1_A]
  obtain l start p1 p2 where "l < length (solutions task1A)"
    and "solutions task1A ! l =
           levelPoints (solutions (builtA\<lparr>refIdx := [(2, 1, 1)]\<rparr>)) l @ [start, p1, p2]"
    by blast
  then have "\<exists>l start p1 p2. l < length (solutions task1A)
         \<and> solutions task1A ! l = levelPoints (solutions builtA) l @ [start, p1, p2]"
    by auto
  then show ?thesis
    by (intro conjI) (rule task1_A)
qed

text \<open>
  Claim C2, as stated, fails: the first task of run A, with target level 2, finishes without
  a new point in level 2, and level 3 has grown by three points.
\<close>

theorem task_leaves_target_level_counterexample:
  "processTask (bumpIterator 0) [1] 1 (2, 0, 0) (builtA\<lparr>refIdx := [(2, 1, 1)]\<rparr>) = Inr task1A
   \<and> solutions task1A ! 2 = solutions builtA ! 2
   \<and> length (solutions task1A ! 3) = length (solutions builtA ! 3) + 3"
  by (intro conjI, rule task1_A) (simp_all add: task1A_def builtA_def)

section \<open>The error a task stores\<close>

text \<open>
  Claim C1 against the code, at the first task \<open>(2, 0, 0)\<close> of run A. The coarse endpoint
  of the claim is the point \<open>([0], 2)\<close> at (sourceLevel 0, index 1) and the second fine step
  ends at \<open>([0], 1/2)\<close>, so the claim's error is 6, to be stored at \<open>errors[0][0]\<close>. The code
  reads the point \<open>([0], 1/4)\<close> at (targetLevel 2, index 1) instead, computes 1, and stores
  it at \<open>errors[2][0]\<close>; \<open>errors[0][0]\<close> keeps the value 2 of the level pass.
\<close>

theorem task_error_uses_target_level:
  "processTask (bumpIterator 0) [1] 1 (2, 0, 0) (builtA\<lparr>refIdx := [(2, 1, 1)]\<rparr>) = Inr task1A
   \<and> solutions builtA ! 0 ! 1 = ([0], 2)
   \<and> solutions builtA ! 2 ! 1 = ([0], 1 / 4)
   \<and> pointOf (bumpIterator 0) (arcLength task1A) = ([0], 1 / 2)
   \<and> errorEstimate [1] [0] 2 [0] (1 / 2) (1 / 2 ^ 2) = 6
   \<and> errorEstimate [1] [0] (1 / 4) [0] (1 / 2) (1 / 2 ^ 2) = 1
   \<and> errors builtA ! 0 ! 0 = 2 \<and> errors task1A ! 0 ! 0 = 2
   \<and> errors builtA ! 2 ! 0 = 0 \<and> errors task1A ! 2 ! 0 = 1"
  by (intro conjI, rule task1_A)
     (simp_all add: task1A_def builtA_def pointOf_def bumpIterator_def errorEstimate_def)

section \<open>Out-of-range accesses of a task\<close>

text \<open>
  Claim C4 against the code. Run B (\<open>maxLevel = 2\<close>): the first task appends its start point
  and one step result to level 3 and then calls \<open>solutions[3].at(solutions.size()-1)\<close>, that
  is \<open>.at(4)\<close> on two points: \<open>std::out_of_range\<close>. The same run with \<open>maxLevel = 1\<close>: the
  store has three levels, the guard of line 488 does not fire for target level 2, and
  \<open>solutions[3].push_back\<close> of line 507 is an access past the end of the store.
\<close>

theorem task_reads_past_end_of_level:
  "run (bumpIterator 0) [1] 1 1 2 (walker0 1) = Some (Inl (OutOfRange, abortB))
   \<and> length (solutions abortB) - 1 = 4 \<and> length (solutions abortB ! 3) = 2
   \<and> run (bumpIterator 0) [1] 1 1 1 (walker0 1) =
       Some (Inl (UndefinedAccess,
         \<lparr>solutions = [[([0], 0), ([0], 2)], [([0], 0), ([0], 1 / 2), ([0], 1)], []],
          errors = [[2, 0], []], refIdx = [(2, 1, 1)],
          points = [(0, 0), (0, 1), (1, 0), (1, 1), (1, 2)],
          arcLength = \<lparr>wU = [0], wL = 0, wLen = 1 / 2, wCount = 3\<rparr>\<rparr>))"
proof -
  have b: "build (bumpIterator 0) [1] 1 1 1 (walker0 1) =
      Inr \<lparr>solutions = [[([0], 0), ([0], 2)], [([0], 0), ([0], 1 / 2), ([0], 1)], []],
           errors = [[2, 0]], refIdx = [(2, 0, 0), (2, 1, 1)],
           points = [(0, 0), (0, 1), (1, 0), (1, 1), (1, 2)],
           arcLength = \<lparr>wU = [0], wL = 1, wLen = 1 / 2, wCount = 3\<rparr>\<rparr>"
    by (simp add: eval_defs)
  have t: "processTask (bumpIterator 0) [1] 1 (2, 0, 0)
      \<lparr>solutions = [[([0], 0), ([0], 2)], [([0], 0), ([0], 1 / 2), ([0], 1)], []],
       errors = [[2, 0]], refIdx = [(2, 1, 1)],
       points = [(0, 0), (0, 1), (1, 0), (1, 1), (1, 2)],
       arcLength = \<lparr>wU = [0], wL = 1, wLen = 1 / 2, wCount = 3\<rparr>\<rparr> =
      Inl (UndefinedAccess,
         \<lparr>solutions = [[([0], 0), ([0], 2)], [([0], 0), ([0], 1 / 2), ([0], 1)], []],
          errors = [[2, 0], []], refIdx = [(2, 1, 1)],
          points = [(0, 0), (0, 1), (1, 0), (1, 1), (1, 2)],
          arcLength = \<lparr>wU = [0], wL = 0, wLen = 1 / 2, wCount = 3\<rparr>\<rparr>)"
    by (simp add: eval_defs)
  have r: "run (bumpIterator 0) [1] 1 1 1 (walker0 1) =
       Some (Inl (UndefinedAccess,
         \<lparr>solutions = [[([0], 0), ([0], 2)], [([0], 0), ([0], 1 / 2), ([0], 1)], []],
          errors = [[2, 0], []], refIdx = [(2, 1, 1)],
          points = [(0, 0), (0, 1), (1, 0), (1, 1), (1, 2)],
          arcLength = \<lparr>wU = [0], wL = 0, wLen = 1 / 2, wCount = 3\<rparr>\<rparr>))"
    by (simp only: run_def b sum.case refine_as_for_each run_state.simps for_each.simps
          list.sel run_state.update_convs t)
  show ?thesis
    by (intro conjI, rule run_B, simp add: abortB_def, simp add: abortB_def, rule r)
qed

section \<open>The store is append-only\<close>

lemma store_extends_refl [simp]: "store_extends sols sols"
  by (simp add: store_extends_def)

lemma store_extends_trans:
  "store_extends a b \<Longrightarrow> store_extends b c \<Longrightarrow> store_extends a c"
  unfolding store_extends_def
  by (meson le_trans less_le_trans prefix_order.order_trans)

lemma store_extends_push:
  assumes "store_extends X sols" and "l < length sols"
  shows "store_extends X (sols[l := sols ! l @ [pt]])"
  unfolding store_extends_def
proof (intro conjI allI impI)
  show "length X \<le> length (sols[l := sols ! l @ [pt]])"
    using assms(1) by (simp add: store_extends_def)
next
  fix k assume k: "k < length X"
  with assms(1) have p: "prefix (X ! k) (sols ! k)" and kl: "k < length sols"
    by (auto simp: store_extends_def)
  show "prefix (X ! k) (sols[l := sols ! l @ [pt]] ! k)"
  proof (cases "k = l")
    case True
    with p assms(2) show ?thesis by (simp add: prefix_def) (metis append.assoc)
  next
    case False
    with p show ?thesis by simp
  qed
qed

lemma store_extends_grow:
  assumes "store_extends X sols"
  shows "store_extends X (sols @ ys)"
  using assms by (auto simp: store_extends_def nth_append)

lemma store_extends_nth:
  assumes "store_extends old new" and "l < length old" and "i < length (old ! l)"
  shows "l < length new \<and> i < length (new ! l) \<and> new ! l ! i = old ! l ! i"
proof -
  from assms(1,2) have "l < length new" and "prefix (old ! l) (new ! l)"
    by (auto simp: store_extends_def)
  then obtain zs where "new ! l = old ! l @ zs"
    by (auto simp: prefix_def)
  with assms(3) \<open>l < length new\<close> show ?thesis
    by (simp add: nth_append)
qed

lemma store_extends_at_point:
  assumes "store_extends old new" and "at_point old l i = Inr pt"
  shows "at_point new l i = Inr pt"
proof -
  from assms(2) have "l < length old" and "i < length (old ! l)" and "old ! l ! i = pt"
    by (auto simp: at_point_def split: if_splits)
  with store_extends_nth [OF assms(1), of l i] show ?thesis
    by (simp add: at_point_def)
qed

lemma stepAndStore_extends:
  "store_extends (solutions st) (solutions (final (stepAndStore al l st)))"
  by (rule stepAndStore_inv [where I = "\<lambda>s. store_extends (solutions st) (solutions s)"])
     (simp_all add: store_extends_push)

lemma refineInterval_extends:
  "store_extends (solutions st) (solutions (final (refineInterval al Force dL level p st)))"
  by (rule refineInterval_inv [where I = "\<lambda>s. store_extends (solutions st) (solutions s)"])
     (simp_all add: store_extends_push)

lemma level0_extends:
  "store_extends (solutions st) (solutions (final (level0 al Force stp st)))"
  by (rule level0_inv [where I = "\<lambda>s. store_extends (solutions st) (solutions s)"
                         and J = "\<lambda>s. store_extends (solutions st) (solutions s)"])
     (simp_all add: store_extends_push)

lemma buildLevel_extends:
  "store_extends (solutions st) (solutions (final (buildLevel al Force dL level st)))"
  by (rule buildLevel_inv [where I = "\<lambda>s. store_extends (solutions st) (solutions s)"
                             and J = "\<lambda>s. store_extends (solutions st) (solutions s)"])
     (simp_all add: store_extends_push store_extends_grow)

lemma for_each_extends:
  assumes "\<And>x s. store_extends (solutions s) (solutions (final (body x s)))"
  shows "store_extends (solutions st) (solutions (final (for_each xs body st)))"
  by (rule for_each_inv [where I = "\<lambda>s. store_extends (solutions st) (solutions s)"])
     (auto intro: store_extends_trans assms)

lemma buildLevels_extends:
  "store_extends (solutions st) (solutions (final (buildLevels al Force dL maxLevel st)))"
  unfolding buildLevels_def by (rule for_each_extends) (rule buildLevel_extends)

lemma processTask_extends:
  "store_extends (solutions st) (solutions (final (processTask al Force dL t st)))"
proof -
  obtain level reflevel pindex where t: "t = (level, reflevel, pindex)"
    by (cases t) auto
  show ?thesis
    unfolding t
    by (rule processTask_inv [where I = "\<lambda>s. store_extends (solutions st) (solutions s)"])
       (simp_all add: store_extends_push store_extends_grow)
qed

lemma refine_extends:
  assumes "refine al Force dL st = Some r"
  shows "store_extends (solutions st) (solutions (final r))"
proof -
  have "store_extends (solutions st) (solutions (final (for_each (refIdx st)
          (\<lambda>t s. processTask al Force dL t (s\<lparr>refIdx := tl (refIdx s)\<rparr>)) st)))"
  proof (rule for_each_extends)
    fix t and s :: "'a run_state"
    show "store_extends (solutions s)
            (solutions (final (processTask al Force dL t (s\<lparr>refIdx := tl (refIdx s)\<rparr>))))"
      using processTask_extends [of "s\<lparr>refIdx := tl (refIdx s)\<rparr>" al Force dL t] by simp
  qed
  with assms show ?thesis
    by (simp add: refine_as_for_each)
qed

text \<open>
  Claim C7: no operation of the run changes or removes a stored point. The uniform walk on
  level 0, the level-by-level pass, a single task and the whole refinement loop leave a
  store in which every level of the store they started from is still present and has only
  been extended at its end; this holds for the state at a fatal stop as well. A point read
  at (level, index) before the refinement loop is read unchanged at (level, index) after
  it, so later error computations see the coarse values as first stored.
\<close>

theorem stored_points_never_change:
  "store_extends (solutions st) (solutions (final (level0 al Force stp st)))
   \<and> store_extends (solutions st) (solutions (final (buildLevels al Force dL maxLevel st)))
   \<and> store_extends (solutions st) (solutions (final (processTask al Force dL t st)))
   \<and> (\<forall>r. refine al Force dL st = Some r \<longrightarrow>
          store_extends (solutions st) (solutions (final r))
        \<and> (\<forall>l i pt. at_point (solutions st) l i = Inr pt \<longrightarrow>
               at_point (solutions (final r)) l i = Inr pt))"
proof (intro conjI allI impI)
  fix r l i pt
  assume r: "refine al Force dL st = Some r"
  then show e: "store_extends (solutions st) (solutions (final r))"
    by (rule refine_extends)
  assume "at_point (solutions st) l i = Inr pt"
  with e show "at_point (solutions (final r)) l i = Inr pt"
    by (rule store_extends_at_point)
qed (rule level0_extends buildLevels_extends processTask_extends)+

theorem stored_points_never_change_witness:
  "refine (bumpIterator 0) [1] 1 builtA = Some (Inr doneA)
   \<and> store_extends (solutions builtA) (solutions doneA)
   \<and> at_point (solutions builtA) 0 1 = Inr ([0], 2)
   \<and> at_point (solutions doneA) 0 1 = Inr ([0], 2)"
proof -
  have a: "at_point (solutions builtA) 0 1 = Inr ([0], 2)"
    by (simp add: at_point_def builtA_def)
  from stored_points_never_change [of builtA "bumpIterator 0" "[1]" 1 1 3 "(2, 0, 0)"] refine_A
  have "store_extends (solutions builtA) (solutions doneA)"
    and "at_point (solutions doneA) 0 1 = Inr ([0], 2)"
    using a by auto
  with refine_A a show ?thesis by blast
qed

section \<open>The head of the uniformly built levels\<close>

lemma heads_initial:
  "headsAreReference Force maxLevel (solutions (initial al maxLevel a0))"
  by (simp add: initial_def headsAreReference_def del: replicate.simps)

lemma heads_push_ref:
  assumes "headsAreReference Force maxLevel sols" and "l < length sols"
  shows "headsAreReference Force maxLevel (sols[l := sols ! l @ [(U0 Force, L0)]])"
  using assms unfolding headsAreReference_def
  by (auto simp: nth_list_update hd_append)

lemma heads_push_nonempty:
  assumes "headsAreReference Force maxLevel sols" and "l < length sols" and "sols ! l \<noteq> []"
  shows "headsAreReference Force maxLevel (sols[l := sols ! l @ [pt]])"
  using assms unfolding headsAreReference_def
  by (auto simp: nth_list_update hd_append)

lemma heads_grow:
  assumes "headsAreReference Force maxLevel sols"
  shows "headsAreReference Force maxLevel (sols @ ys)"
  using assms unfolding headsAreReference_def
  by (auto simp: nth_append)

lemma nonempty_extends:
  assumes "store_extends old new" and "l < length old" and "old ! l \<noteq> []"
  shows "l < length new \<and> new ! l \<noteq> [] \<and> hd (new ! l) = hd (old ! l)"
proof -
  from assms(1,2) have "l < length new" and "prefix (old ! l) (new ! l)"
    by (auto simp: store_extends_def)
  then obtain zs where "new ! l = old ! l @ zs"
    by (auto simp: prefix_def)
  with assms(3) \<open>l < length new\<close> show ?thesis by simp
qed

lemma heads_extends:
  assumes "store_extends old new" and "headsAreReference Force maxLevel old"
    and "\<forall>l \<le> maxLevel. old ! l \<noteq> []"
  shows "headsAreReference Force maxLevel new \<and> (\<forall>l \<le> maxLevel. new ! l \<noteq> [])"
proof -
  have "new ! l \<noteq> [] \<and> hd (new ! l) = (U0 Force, L0) \<and> l < length new" if "l \<le> maxLevel" for l
  proof -
    from that assms(2) have "l < length old" and "old ! l = [] \<or> hd (old ! l) = (U0 Force, L0)"
      by (auto simp: headsAreReference_def)
    moreover from that assms(3) have "old ! l \<noteq> []" by simp
    ultimately show ?thesis
      using nonempty_extends [OF assms(1), of l] by auto
  qed
  then show ?thesis
    unfolding headsAreReference_def by (meson le_refl)
qed

lemma level0_heads:
  assumes "headsAreReference Force maxLevel (solutions st)"
  shows "headsAreReference Force maxLevel (solutions (final (level0 al Force stp st)))"
  by (rule level0_inv [where I = "\<lambda>s. headsAreReference Force maxLevel (solutions s)"
        and J = "\<lambda>s. headsAreReference Force maxLevel (solutions s)
                     \<and> 0 < length (solutions s) \<and> solutions s ! 0 \<noteq> []"])
     (simp_all add: assms heads_push_ref heads_push_nonempty)

lemma buildLevel_heads:
  assumes "headsAreReference Force maxLevel (solutions st)"
  shows "headsAreReference Force maxLevel (solutions (final (buildLevel al Force dL level st)))"
  by (rule buildLevel_inv [where I = "\<lambda>s. headsAreReference Force maxLevel (solutions s)"
        and J = "\<lambda>s. headsAreReference Force maxLevel (solutions s)
                     \<and> level < length (solutions s) \<and> solutions s ! level \<noteq> []"])
     (simp_all add: assms heads_push_ref heads_push_nonempty heads_grow)

lemma buildLevels_heads:
  assumes "headsAreReference Force maxLevel (solutions st)"
  shows "headsAreReference Force maxLevel (solutions (final (buildLevels al Force dL m st)))"
  unfolding buildLevels_def
  by (rule for_each_inv [where I = "\<lambda>s. headsAreReference Force maxLevel (solutions s)"])
     (simp_all add: assms buildLevel_heads)

lemma collectPoints_solutions [simp]:
  "solutions (final (collectPoints m st)) = solutions st"
  by (simp add: collectPoints_def)

lemma build_heads:
  "headsAreReference Force maxLevel (solutions (final (build al Force dL stp maxLevel a0)))"
  unfolding build_def
proof (rule and_then_inv [where I = "\<lambda>s. headsAreReference Force maxLevel (solutions s)"],
    goal_cases)
  case 1
  show ?case by (rule level0_heads) (rule heads_initial)
next
  case (2 s)
  show ?case
    by (rule and_then_inv [where I = "\<lambda>s. headsAreReference Force maxLevel (solutions s)"])
       (simp_all add: buildLevels_heads 2)
qed

text \<open>After the build, every level up to maxLevel holds at least one point\<close>

lemma level0_Inr_nonempty:
  assumes "level0 al Force stp st = Inr st'"
  shows "0 < length (solutions st') \<and> solutions st' ! 0 \<noteq> []"
proof -
  from assms have lt: "0 < length (solutions st)"
    by (auto simp: level0_def push_point_def split: if_splits)
  let ?st1 = "st\<lparr>solutions := (solutions st)[0 := solutions st ! 0 @ [(U0 Force, L0)]]\<rparr>"
  from assms lt have "for_each [0..<nat (stp * 2 ^ 0)] (\<lambda>k. stepAndStore al 0) ?st1 = Inr st'"
    by (simp add: level0_def push_point_def)
  moreover have "store_extends (solutions ?st1)
      (solutions (final (for_each [0..<nat (stp * 2 ^ 0)] (\<lambda>k. stepAndStore al 0) ?st1)))"
    by (rule for_each_extends) (rule stepAndStore_extends)
  ultimately have "store_extends (solutions ?st1) (solutions st')" by simp
  from nonempty_extends [OF this, of 0] lt show ?thesis by simp
qed

lemma buildLevel_Inr_nonempty:
  assumes "buildLevel al Force dL level st = Inr st'"
  shows "level < length (solutions st') \<and> solutions st' ! level \<noteq> []"
proof -
  let ?st1 = "st\<lparr>errors := (errors st)[level - 1 :=
                 resize (length (solutions st ! (level - 1))) 0 (errors st ! (level - 1))]\<rparr>"
  let ?st2 = "?st1\<lparr>solutions := (solutions ?st1)[level := solutions ?st1 ! level @ [(U0 Force, L0)]]\<rparr>"
  let ?st3 = "?st2\<lparr>arcLength := setLength al (dL / 2 ^ level) (arcLength ?st2)\<rparr>"
  from assms have lt: "level < length (solutions st)"
    by (auto simp: buildLevel_def push_point_def Let_def split: if_splits)
  with assms obtain xs st4 where 4: "for_each xs (refineInterval al Force dL level) ?st3 = Inr st4"
    and st': "st' = st4\<lparr>solutions := solutions st4 @ [[]]\<rparr>"
    by (auto simp: buildLevel_def push_point_def Let_def and_then_def split: if_splits sum.splits)
  have "store_extends (solutions ?st3)
      (solutions (final (for_each xs (refineInterval al Force dL level) ?st3)))"
    by (rule for_each_extends) (rule refineInterval_extends)
  with 4 have "store_extends (solutions ?st3) (solutions st4)" by simp
  from nonempty_extends [OF this, of level] lt
  have "level < length (solutions st4)" and "solutions st4 ! level \<noteq> []" by simp_all
  then show ?thesis by (simp add: st' nth_append)
qed

lemma for_each_upt_Inr:
  assumes "for_each [a..<b] body st = Inr st'" and "P a st"
    and "\<And>k s s'. a \<le> k \<Longrightarrow> k < b \<Longrightarrow> P k s \<Longrightarrow> body k s = Inr s' \<Longrightarrow> P (Suc k) s'"
    and "a \<le> b"
  shows "P b st'"
  using assms
proof (induction "b - a" arbitrary: a st)
  case 0
  then show ?case by simp
next
  case (Suc n)
  then have ab: "a < b" by simp
  then have upt: "[a..<b] = a # [Suc a..<b]" by (rule upt_conv_Cons)
  from Suc.prems(1) obtain s1 where s1: "body a st = Inr s1"
    and rest: "for_each [Suc a..<b] body s1 = Inr st'"
    by (auto simp: upt split: sum.splits)
  have P1: "P (Suc a) s1"
    by (rule Suc.prems(3) [OF _ ab Suc.prems(2) s1]) simp
  show ?case
  proof (rule Suc.hyps(1) [OF _ rest P1])
    show "n = b - Suc a" using Suc.hyps(2) by simp
    show "Suc a \<le> b" using ab by simp
    show "P (Suc k) s'" if "Suc a \<le> k" "k < b" "P k s" "body k s = Inr s'" for k s s'
      using that by (intro Suc.prems(3) [of k s s']) simp_all
  qed
qed

lemma buildLevels_Inr_nonempty:
  assumes "buildLevels al Force dL maxLevel st = Inr st'"
    and "0 < length (solutions st)" and "solutions st ! 0 \<noteq> []"
  shows "\<forall>l \<le> maxLevel. l < length (solutions st') \<and> solutions st' ! l \<noteq> []"
proof -
  let ?P = "\<lambda>k s. \<forall>l<k. l < length (solutions s) \<and> solutions s ! l \<noteq> []"
  have "?P (maxLevel + 1) st'"
  proof (rule for_each_upt_Inr [where P = ?P and a = 1 and body = "buildLevel al Force dL" and st = st])
    show "for_each [1..<maxLevel + 1] (buildLevel al Force dL) st = Inr st'"
      using assms(1) by (simp add: buildLevels_def)
    show "?P 1 st" using assms(2,3) by simp
    show "1 \<le> maxLevel + 1" by simp
    show "?P (Suc k) s'" if "?P k s" and b: "buildLevel al Force dL k s = Inr s'" for k s s'
    proof (intro allI impI)
      fix l assume "l < Suc k"
      show "l < length (solutions s') \<and> solutions s' ! l \<noteq> []"
      proof (cases "l = k")
        case True
        with buildLevel_Inr_nonempty [OF b] show ?thesis by simp
      next
        case False
        with \<open>l < Suc k\<close> that(1) have "l < length (solutions s)" "solutions s ! l \<noteq> []"
          by auto
        moreover have "store_extends (solutions s) (solutions s')"
          using buildLevel_extends [of s al Force dL k] b by simp
        ultimately show ?thesis
          using nonempty_extends [of "solutions s" "solutions s'" l] by simp
      qed
    qed
  qed
  then show ?thesis by (simp add: less_Suc_eq_le)
qed

lemma build_Inr_nonempty:
  assumes "build al Force dL stp maxLevel a0 = Inr st"
  shows "\<forall>l \<le> maxLevel. solutions st ! l \<noteq> []"
proof -
  from assms obtain s1 s2 where 1: "level0 al Force stp (initial al maxLevel a0) = Inr s1"
    and 2: "buildLevels al Force dL maxLevel s1 = Inr s2"
    and 3: "collectPoints maxLevel s2 = Inr st"
    by (auto simp: build_def and_then_def split: sum.splits)
  from level0_Inr_nonempty [OF 1] buildLevels_Inr_nonempty [OF 2]
  have "\<forall>l \<le> maxLevel. solutions s2 ! l \<noteq> []" by simp
  moreover from 3 have "solutions st = solutions s2"
    using collectPoints_solutions [of maxLevel s2] by simp
  ultimately show ?thesis by simp
qed

lemma run_terminates: "\<exists>r. run al Force dL stp maxLevel a0 = Some r"
  by (simp add: run_def refine_as_for_each split: sum.splits)

text \<open>
  Claim C5, amended: the run always ends, normally or by a fatal stop, and in the state it
  ends with every one of the levels 0 to maxLevel that holds a point starts with the
  reference point (state 0, load factor 0). If the uniform build of levels 0 to maxLevel
  was completed, all of these levels hold points, so each of them starts with the reference
  point. Nothing is said about the head of a level that is first filled by a refinement
  task.
\<close>

theorem uniform_levels_start_at_reference:
  "\<exists>r. run al Force dL stp maxLevel a0 = Some r
      \<and> headsAreReference Force maxLevel (solutions (final r))
      \<and> (\<forall>st. build al Force dL stp maxLevel a0 = Inr st \<longrightarrow>
            (\<forall>l \<le> maxLevel. solutions (final r) ! l \<noteq> []
                          \<and> hd (solutions (final r) ! l) = (U0 Force, L0)))"
proof (cases "build al Force dL stp maxLevel a0")
  case (Inl a)
  then have "run al Force dL stp maxLevel a0 = Some (Inl a)"
    by (simp add: run_def)
  moreover have "headsAreReference Force maxLevel (solutions (final (Inl a)))"
    using build_heads [of Force maxLevel al dL stp a0] Inl by simp
  ultimately show ?thesis using Inl by simp
next
  case (Inr st)
  obtain r where r: "refine al Force dL st = Some r"
    by (simp add: refine_as_for_each)
  have h: "headsAreReference Force maxLevel (solutions st)"
    using build_heads [of Force maxLevel al dL stp a0] Inr by simp
  have n: "\<forall>l \<le> maxLevel. solutions st ! l \<noteq> []"
    by (rule build_Inr_nonempty [OF Inr])
  from heads_extends [OF refine_extends [OF r] h n]
  have H: "headsAreReference Force maxLevel (solutions (final r))"
    and N: "\<forall>l \<le> maxLevel. solutions (final r) ! l \<noteq> []"
    by simp_all
  then have "\<forall>l \<le> maxLevel. solutions (final r) ! l \<noteq> []
                          \<and> hd (solutions (final r) ! l) = (U0 Force, L0)"
    by (auto simp: headsAreReference_def)
  moreover have "run al Force dL stp maxLevel a0 = Some r"
    by (simp add: run_def Inr r)
  ultimately show ?thesis using H by blast
qed

theorem uniform_levels_start_at_reference_witness:
  "run (bumpIterator 0) [1] 1 1 3 (walker0 1) = Some (Inr doneA)
   \<and> headsAreReference [1] 3 (solutions doneA)
   \<and> solutions doneA ! 3 \<noteq> [] \<and> hd (solutions doneA ! 3) = (U0 [1], L0)"
proof -
  from uniform_levels_start_at_reference [of "bumpIterator 0" "[1]" 1 1 3 "walker0 1"]
  have "headsAreReference [1] 3 (solutions doneA)"
    and "solutions doneA ! 3 \<noteq> [] \<and> hd (solutions doneA ! 3) = (U0 [1], L0)"
    by (simp_all only: run_A build_A option.inject final_Inr simp_thms ex_simps)
  with run_A show ?thesis by blast
qed

text \<open>
  Claim C5, as stated, fails for a level that a refinement task is the first to fill. In
  run C level 3 is empty when the queue loop starts; the first task \<open>(2, 0, 1)\<close> pushes its
  start point, the point \<open>([0], 1)\<close> of level 0, as the first point of level 3 (line 507).
\<close>

theorem task_level_starts_elsewhere_counterexample:
  "run (bumpIterator 1) [1] 1 2 2 (walker0 1) = Some (Inl (OutOfRange, abortC))
   \<and> build (bumpIterator 1) [1] 1 2 2 (walker0 1) = Inr builtC
   \<and> solutions builtC ! 3 = []
   \<and> solutions abortC ! 3 = [([0], 1), ([0], 5 / 4)]
   \<and> hd (solutions abortC ! 3) \<noteq> (U0 [1], L0)"
  by (intro conjI, rule run_C, rule build_C)
     (simp_all add: builtC_def abortC_def U0_def L0_def)

section \<open>A step that does not converge\<close>

lemma stepAndStore_diverged:
  assumes "\<not> converged al (step al (arcLength s))"
  shows "stepAndStore al l s = Inl (NotConverged, s\<lparr>arcLength := step al (arcLength s)\<rparr>)"
  using assms by (simp add: stepAndStore_def Let_def)

lemma for_each_stops:
  assumes "for_each xs body st = Inr s" and "body x s = Inl e"
  shows "for_each (xs @ x # ys) body st = Inl e"
  using assms by (simp add: for_each_append)

lemma upt_split_at: "a \<le> k \<Longrightarrow> k < n \<Longrightarrow> [a..<n] = [a..<k] @ k # [Suc k..<n]"
  by (metis less_imp_le_nat upt_add_eq_append upt_conv_Cons le_Suc_ex)

lemma loop_stops:
  assumes "a \<le> k" and "k < n" and "for_each [a..<k] body st = Inr s" and "body k s = Inl e"
  shows "for_each [a..<n] body st = Inl e"
  using for_each_stops [OF assms(3,4)] upt_split_at [OF assms(1,2)] by simp

lemma level0_diverged:
  assumes "0 < length (solutions st)" and "k < nat stp"
    and "for_each [0..<k] (\<lambda>k. stepAndStore al 0) (level0Start Force st) = Inr s"
    and "\<not> converged al (step al (arcLength s))"
  shows "level0 al Force stp st = Inl (NotConverged, s\<lparr>arcLength := step al (arcLength s)\<rparr>)"
proof -
  have "for_each [0..<nat stp] (\<lambda>k. stepAndStore al 0) (level0Start Force st)
          = Inl (NotConverged, s\<lparr>arcLength := step al (arcLength s)\<rparr>)"
    by (rule loop_stops [OF _ assms(2,3)]) (simp_all add: stepAndStore_diverged [OF assms(4)])
  with assms(1) show ?thesis
    by (simp add: level0_def push_point_def level0Start_def)
qed

lemma refineInterval_diverged:
  assumes "at_point (solutions st) (level - 1) p = Inr start"
    and "at_point (solutions st) (level - 1) (p + 1) = Inr guess"
    and "k < 2"
    and "for_each [0..<k] (\<lambda>k. stepAndStore al level) (intervalStart al start guess st) = Inr s"
    and "\<not> converged al (step al (arcLength s))"
  shows "refineInterval al Force dL level p st
           = Inl (NotConverged, s\<lparr>arcLength := step al (arcLength s)\<rparr>)"
proof -
  have "for_each [0..<2] (\<lambda>k. stepAndStore al level) (intervalStart al start guess st)
          = Inl (NotConverged, s\<lparr>arcLength := step al (arcLength s)\<rparr>)"
    by (rule loop_stops [OF _ assms(3,4)]) (simp_all add: stepAndStore_diverged [OF assms(5)])
  then show ?thesis
    using assms(1,2)
    by (cases start; cases guess) (simp add: refineInterval_def intervalStart_def Let_def)
qed

lemma processTask_diverged:
  assumes "at_point (solutions (ensureLevels level st)) reflevel pindex = Inr start"
    and "level + 1 < length (solutions (ensureLevels level st))"
    and "at_point (solutions (taskStart al dL level start guess st)) reflevel (pindex + 1) = Inr guess"
    and "k < 2"
    and "for_each [0..<k]
           (\<lambda>k s. and_then (stepAndStore al (level + 1) s) (recordPoint (level + 1)))
           (taskStart al dL level start guess st) = Inr s"
    and "\<not> converged al (step al (arcLength s))"
  shows "processTask al Force dL (level, reflevel, pindex) st
           = Inl (NotConverged, s\<lparr>arcLength := step al (arcLength s)\<rparr>)"
proof -
  have "for_each [0..<2]
           (\<lambda>k s. and_then (stepAndStore al (level + 1) s) (recordPoint (level + 1)))
           (taskStart al dL level start guess st)
          = Inl (NotConverged, s\<lparr>arcLength := step al (arcLength s)\<rparr>)"
    by (rule loop_stops [OF _ assms(4,5)]) (simp_all add: stepAndStore_diverged [OF assms(6)])
  then show ?thesis
    using assms(1,2,3)
    by (cases start; cases guess) (simp add: taskStart_def Let_def push_point_def)
qed

lemma buildLevel_stops:
  assumes "level - 1 < length (errors st)" and "level < length (solutions st)"
    and "p < length (solutions (levelStart al Force dL level st) ! (level - 1)) - 1"
    and "for_each [0..<p] (refineInterval al Force dL level) (levelStart al Force dL level st) = Inr sp"
    and "refineInterval al Force dL level p sp = Inl x"
  shows "buildLevel al Force dL level st = Inl x"
proof -
  let ?n = "length (solutions (levelStart al Force dL level st) ! (level - 1))"
  have "for_each [0..<?n - 1] (refineInterval al Force dL level) (levelStart al Force dL level st)
          = Inl x"
    by (rule loop_stops [OF _ assms(3,4,5)]) simp
  moreover from assms(3)
  have "solutions (levelStart al Force dL level st) ! (level - 1) \<noteq> []" by auto
  moreover from assms(2) have "level - 1 < length (solutions st)" by simp
  ultimately show ?thesis
    using assms(1,2)
    by (simp add: buildLevel_def levelStart_def push_point_def Let_def)
qed

lemma buildLevels_stops:
  assumes "1 \<le> L" and "L \<le> maxLevel"
    and "for_each [1..<L] (buildLevel al Force dL) st = Inr sL"
    and "buildLevel al Force dL L sL = Inl x"
  shows "buildLevels al Force dL maxLevel st = Inl x"
  unfolding buildLevels_def
  using assms(2) by (intro loop_stops [OF assms(1) _ assms(3,4)]) simp

lemma build_stops_in_level0:
  "level0 al Force stp (initial al maxLevel a0) = Inl x \<Longrightarrow>
     build al Force dL stp maxLevel a0 = Inl x"
  by (simp add: build_def)

lemma build_stops_in_levels:
  "level0 al Force stp (initial al maxLevel a0) = Inr s0 \<Longrightarrow>
     buildLevels al Force dL maxLevel s0 = Inl x \<Longrightarrow>
     build al Force dL stp maxLevel a0 = Inl x"
  by (simp add: build_def)

lemma run_stops_in_build:
  "build al Force dL stp maxLevel a0 = Inl x \<Longrightarrow> run al Force dL stp maxLevel a0 = Some (Inl x)"
  by (simp add: run_def)

lemma nextTask_queue:
  assumes "for_each q1 (nextTask al Force dL) sb = Inr sq" and "refIdx sb = q1 @ q2"
  shows "refIdx sq = q2"
  using assms
proof (induction q1 arbitrary: sb)
  case Nil
  then show ?case by simp
next
  case (Cons t q1)
  from Cons.prems obtain s where s: "nextTask al Force dL t sb = Inr s"
    and rest: "for_each q1 (nextTask al Force dL) s = Inr sq"
    by (auto split: sum.splits)
  have "refIdx (final (nextTask al Force dL t sb)) = refIdx (sb\<lparr>refIdx := tl (refIdx sb)\<rparr>)"
    unfolding nextTask_def by (rule processTask_refIdx)
  with s Cons.prems(2) have "refIdx s = q1 @ q2" by simp
  with rest show ?case by (rule Cons.IH)
qed

lemma run_stops_in_queue:
  assumes "build al Force dL stp maxLevel a0 = Inr sb" and "refIdx sb = q1 @ t # q2"
    and "for_each q1 (nextTask al Force dL) sb = Inr sq"
    and "processTask al Force dL t (sq\<lparr>refIdx := q2\<rparr>) = Inl x"
  shows "run al Force dL stp maxLevel a0 = Some (Inl x)"
proof -
  have "refIdx sq = t # q2" by (rule nextTask_queue [OF assms(3,2)])
  with assms(4) have "nextTask al Force dL t sq = Inl x"
    by (simp add: nextTask_def)
  from for_each_stops [OF assms(3) this, of q2]
  have "for_each (refIdx sb) (nextTask al Force dL) sb = Inl x"
    by (simp add: assms(2))
  moreover have "nextTask al Force dL = (\<lambda>t s. processTask al Force dL t (s\<lparr>refIdx := tl (refIdx s)\<rparr>))"
    by (intro ext) (simp add: nextTask_def)
  ultimately show ?thesis
    by (simp add: run_def assms(1) refine_as_for_each)
qed

text \<open>The guards of a level pass hold whenever the pass is reached: the uniform levels never
  lose a level of \<open>solutions\<close>, and they keep the number of levels of \<open>errors\<close>.\<close>

lemma for_each_Inr_inv:
  assumes "for_each xs body st = Inr s'" and "I st"
    and "\<And>x s t. x \<in> set xs \<Longrightarrow> I s \<Longrightarrow> body x s = Inr t \<Longrightarrow> I t"
  shows "I s'"
  using assms
proof (induction xs arbitrary: st)
  case Nil
  then show ?case by simp
next
  case (Cons x xs)
  from Cons.prems(1) obtain t where t: "body x st = Inr t" and rest: "for_each xs body t = Inr s'"
    by (auto split: sum.splits)
  have "I t" by (rule Cons.prems(3) [OF _ Cons.prems(2) t]) simp
  with rest show ?case
    by (rule Cons.IH) (rule Cons.prems(3), simp_all)
qed

lemma steps_keep_errors:
  assumes "for_each ks (\<lambda>k. stepAndStore al l) st = Inr s"
  shows "errors s = errors st"
  by (rule for_each_Inr_inv [where I = "\<lambda>s. errors s = errors st", OF assms])
     (auto dest: stepAndStore_Inr)

lemma level0_keeps_errors:
  assumes "level0 al Force stp st = Inr s"
  shows "errors s = errors st"
proof -
  from assms obtain st1 where 1: "push_point 0 (U0 Force, L0) st = Inr st1"
    and 2: "for_each [0..<nat (stp * 2 ^ 0)] (\<lambda>k. stepAndStore al 0) st1 = Inr s"
    by (auto simp: level0_def and_then_def split: sum.splits)
  from 1 have "errors st1 = errors st"
    by (auto simp: push_point_def split: if_splits)
  with steps_keep_errors [OF 2] show ?thesis by simp
qed

lemma refineInterval_keeps_levels_of_errors:
  assumes "refineInterval al Force dL level p st = Inr s"
  shows "length (errors s) = length (errors st)"
  using refineInterval_Inr [OF assms] by auto

lemma buildLevel_keeps_levels_of_errors:
  assumes "buildLevel al Force dL level st = Inr s"
  shows "length (errors s) = length (errors st)"
proof -
  from assms have g: "level - 1 < length (errors st) \<and> level - 1 < length (solutions st)"
    by (auto simp: buildLevel_def split: if_splits)
  from assms g have l: "level < length (solutions st)"
    by (auto simp: buildLevel_def push_point_def Let_def split: if_splits)
  let ?st3 = "levelStart al Force dL level st"
  let ?n = "length (solutions ?st3 ! (level - 1))"
  from assms g l obtain st4 where 4:
    "for_each [0..<?n - 1] (refineInterval al Force dL level) ?st3 = Inr st4"
    and s: "s = st4\<lparr>solutions := solutions st4 @ [[]]\<rparr>"
    by (auto simp: buildLevel_def levelStart_def push_point_def Let_def and_then_def
             split: if_splits sum.splits)
  have "length (errors st4) = length (errors st)"
    by (rule for_each_Inr_inv [where I = "\<lambda>s. length (errors s) = length (errors st)", OF 4])
       (simp_all add: levelStart_def refineInterval_keeps_levels_of_errors)
  with s show ?thesis by simp
qed

lemma level_guards:
  assumes "level0 al Force stp (initial al maxLevel a0) = Inr s0"
    and "for_each [1..<L] (buildLevel al Force dL) s0 = Inr sL"
    and "1 \<le> L" and "L \<le> maxLevel"
  shows "L - 1 < length (errors sL) \<and> L < length (solutions sL)"
proof -
  have "length (errors s0) = maxLevel"
    using level0_keeps_errors [OF assms(1)] by (simp add: initial_def)
  then have "length (errors sL) = maxLevel"
    by (intro for_each_Inr_inv [where I = "\<lambda>s. length (errors s) = maxLevel", OF assms(2)])
       (simp_all add: buildLevel_keeps_levels_of_errors)
  moreover
  let ?I = "\<lambda>s::'a run_state. maxLevel + 1 \<le> length (solutions s)"
  have "?I (final (level0 al Force stp (initial al maxLevel a0)))"
    by (rule level0_inv [where I = ?I and J = ?I]) (simp_all add: initial_def)
  with assms(1) have "?I s0" by simp
  have "?I sL"
  proof (rule for_each_Inr_inv [where I = ?I, OF assms(2) \<open>?I s0\<close>])
    fix x s t
    assume "?I s" and t: "buildLevel al Force dL x s = Inr t"
    then have "?I (final (buildLevel al Force dL x s))"
      by (intro buildLevel_inv [where I = ?I and J = ?I]) simp_all
    with t show "?I t" by simp
  qed
  ultimately show ?thesis
    using assms(3,4) by simp
qed

text \<open>
  Claim C6: a \<open>step()\<close> call that does not converge ends the run in the fatal stop of
  \<open>GISMO_ERROR\<close>, wherever in the run it is made, and nothing of it is stored. Let \<open>s\<close> be
  the state in which the failing \<open>step()\<close> is called. Then

  \<^item> the step itself stops with \<open>NotConverged\<close> and leaves \<open>solutions\<close> as it was;
  \<^item> if the call is the one of iteration \<open>k\<close> of the level-0 loop (line 381), the whole run
    ends in \<open>NotConverged\<close>;
  \<^item> if it is the one of iteration \<open>k\<close> of interval \<open>p\<close> of the pass over level \<open>L\<close>
    (line 427), the whole run ends in \<open>NotConverged\<close>;
  \<^item> if it is the one of iteration \<open>k\<close> of a task taken off the queue after the tasks
    \<open>q1\<close> have been processed (line 521), the whole run ends in \<open>NotConverged\<close>.

  In each case the state the run ends in is \<open>s\<close> with only the iterator object changed:
  \<open>solutions\<close>, \<open>errors\<close>, \<open>points\<close> and the queue are those of the moment before the call.
  These are the three \<open>step()\<close> calls of the program.
\<close>

theorem diverged_step_aborts_run:
  assumes "\<not> converged al (step al (arcLength s))"
  shows
    "stepAndStore al l s = Inl (NotConverged, s\<lparr>arcLength := step al (arcLength s)\<rparr>)
     \<and> solutions (final (stepAndStore al l s)) = solutions s
     \<and> (k < nat stp
          \<and> for_each [0..<k] (\<lambda>k. stepAndStore al 0)
               (level0Start Force (initial al maxLevel a0)) = Inr s
        \<longrightarrow> run al Force dL stp maxLevel a0
              = Some (Inl (NotConverged, s\<lparr>arcLength := step al (arcLength s)\<rparr>)))
     \<and> (level0 al Force stp (initial al maxLevel a0) = Inr s0
          \<and> 1 \<le> L \<and> L \<le> maxLevel
          \<and> for_each [1..<L] (buildLevel al Force dL) s0 = Inr sL
          \<and> p < length (solutions (levelStart al Force dL L sL) ! (L - 1)) - 1
          \<and> for_each [0..<p] (refineInterval al Force dL L) (levelStart al Force dL L sL) = Inr sp
          \<and> at_point (solutions sp) (L - 1) p = Inr start
          \<and> at_point (solutions sp) (L - 1) (p + 1) = Inr guess
          \<and> k < 2
          \<and> for_each [0..<k] (\<lambda>k. stepAndStore al L) (intervalStart al start guess sp) = Inr s
        \<longrightarrow> run al Force dL stp maxLevel a0
              = Some (Inl (NotConverged, s\<lparr>arcLength := step al (arcLength s)\<rparr>)))
     \<and> (build al Force dL stp maxLevel a0 = Inr sb
          \<and> refIdx sb = q1 @ (level, reflevel, pindex) # q2
          \<and> for_each q1 (nextTask al Force dL) sb = Inr sq
          \<and> at_point (solutions (ensureLevels level (sq\<lparr>refIdx := q2\<rparr>))) reflevel pindex
               = Inr start
          \<and> level + 1 < length (solutions (ensureLevels level (sq\<lparr>refIdx := q2\<rparr>)))
          \<and> at_point (solutions (taskStart al dL level start guess (sq\<lparr>refIdx := q2\<rparr>)))
               reflevel (pindex + 1) = Inr guess
          \<and> k < 2
          \<and> for_each [0..<k]
               (\<lambda>k s. and_then (stepAndStore al (level + 1) s) (recordPoint (level + 1)))
               (taskStart al dL level start guess (sq\<lparr>refIdx := q2\<rparr>)) = Inr s
        \<longrightarrow> run al Force dL stp maxLevel a0
              = Some (Inl (NotConverged, s\<lparr>arcLength := step al (arcLength s)\<rparr>)))"
proof (intro conjI impI)
  show "stepAndStore al l s = Inl (NotConverged, s\<lparr>arcLength := step al (arcLength s)\<rparr>)"
    by (rule stepAndStore_diverged [OF assms])
  then show "solutions (final (stepAndStore al l s)) = solutions s"
    by simp
next
  assume h: "k < nat stp
      \<and> for_each [0..<k] (\<lambda>k. stepAndStore al 0)
           (level0Start Force (initial al maxLevel a0)) = Inr s"
  have "0 < length (solutions (initial al maxLevel a0))"
    by (simp add: initial_def)
  from level0_diverged [OF this _ _ assms] h
  have "level0 al Force stp (initial al maxLevel a0)
          = Inl (NotConverged, s\<lparr>arcLength := step al (arcLength s)\<rparr>)"
    by blast
  then show "run al Force dL stp maxLevel a0
               = Some (Inl (NotConverged, s\<lparr>arcLength := step al (arcLength s)\<rparr>))"
    by (intro run_stops_in_build build_stops_in_level0)
next
  assume h: "level0 al Force stp (initial al maxLevel a0) = Inr s0
      \<and> 1 \<le> L \<and> L \<le> maxLevel
      \<and> for_each [1..<L] (buildLevel al Force dL) s0 = Inr sL
      \<and> p < length (solutions (levelStart al Force dL L sL) ! (L - 1)) - 1
      \<and> for_each [0..<p] (refineInterval al Force dL L) (levelStart al Force dL L sL) = Inr sp
      \<and> at_point (solutions sp) (L - 1) p = Inr start
      \<and> at_point (solutions sp) (L - 1) (p + 1) = Inr guess
      \<and> k < 2
      \<and> for_each [0..<k] (\<lambda>k. stepAndStore al L) (intervalStart al start guess sp) = Inr s"
  then have s0: "level0 al Force stp (initial al maxLevel a0) = Inr s0"
    and L: "1 \<le> L" "L \<le> maxLevel"
    and sL: "for_each [1..<L] (buildLevel al Force dL) s0 = Inr sL"
    and p: "p < length (solutions (levelStart al Force dL L sL) ! (L - 1)) - 1"
    and sp: "for_each [0..<p] (refineInterval al Force dL L) (levelStart al Force dL L sL) = Inr sp"
    and pts: "at_point (solutions sp) (L - 1) p = Inr start"
      "at_point (solutions sp) (L - 1) (p + 1) = Inr guess"
    and k: "k < 2"
    and s: "for_each [0..<k] (\<lambda>k. stepAndStore al L) (intervalStart al start guess sp) = Inr s"
    by simp_all
  from level_guards [OF s0 sL L]
  have g: "L - 1 < length (errors sL)" "L < length (solutions sL)" by simp_all
  have "refineInterval al Force dL L p sp
          = Inl (NotConverged, s\<lparr>arcLength := step al (arcLength s)\<rparr>)"
    by (rule refineInterval_diverged [OF pts k s assms])
  then have "buildLevel al Force dL L sL
          = Inl (NotConverged, s\<lparr>arcLength := step al (arcLength s)\<rparr>)"
    by (rule buildLevel_stops [OF g p sp])
  then have "buildLevels al Force dL maxLevel s0
          = Inl (NotConverged, s\<lparr>arcLength := step al (arcLength s)\<rparr>)"
    by (rule buildLevels_stops [OF L sL])
  then show "run al Force dL stp maxLevel a0
               = Some (Inl (NotConverged, s\<lparr>arcLength := step al (arcLength s)\<rparr>))"
    by (intro run_stops_in_build build_stops_in_levels [OF s0])
next
  assume h: "build al Force dL stp maxLevel a0 = Inr sb
      \<and> refIdx sb = q1 @ (level, reflevel, pindex) # q2
      \<and> for_each q1 (nextTask al Force dL) sb = Inr sq
      \<and> at_point (solutions (ensureLevels level (sq\<lparr>refIdx := q2\<rparr>))) reflevel pindex
           = Inr start
      \<and> level + 1 < length (solutions (ensureLevels level (sq\<lparr>refIdx := q2\<rparr>)))
      \<and> at_point (solutions (taskStart al dL level start guess (sq\<lparr>refIdx := q2\<rparr>)))
           reflevel (pindex + 1) = Inr guess
      \<and> k < 2
      \<and> for_each [0..<k]
           (\<lambda>k s. and_then (stepAndStore al (level + 1) s) (recordPoint (level + 1)))
           (taskStart al dL level start guess (sq\<lparr>refIdx := q2\<rparr>)) = Inr s"
  then have sb: "build al Force dL stp maxLevel a0 = Inr sb"
    and q: "refIdx sb = q1 @ (level, reflevel, pindex) # q2"
    and sq: "for_each q1 (nextTask al Force dL) sb = Inr sq"
    and t: "at_point (solutions (ensureLevels level (sq\<lparr>refIdx := q2\<rparr>))) reflevel pindex
              = Inr start"
      "level + 1 < length (solutions (ensureLevels level (sq\<lparr>refIdx := q2\<rparr>)))"
      "at_point (solutions (taskStart al dL level start guess (sq\<lparr>refIdx := q2\<rparr>)))
         reflevel (pindex + 1) = Inr guess"
      "k < 2"
      "for_each [0..<k]
         (\<lambda>k s. and_then (stepAndStore al (level + 1) s) (recordPoint (level + 1)))
         (taskStart al dL level start guess (sq\<lparr>refIdx := q2\<rparr>)) = Inr s"
    by simp_all
  have "processTask al Force dL (level, reflevel, pindex) (sq\<lparr>refIdx := q2\<rparr>)
          = Inl (NotConverged, s\<lparr>arcLength := step al (arcLength s)\<rparr>)"
    by (rule processTask_diverged [OF t assms])
  then show "run al Force dL stp maxLevel a0
               = Some (Inl (NotConverged, s\<lparr>arcLength := step al (arcLength s)\<rparr>))"
    by (rule run_stops_in_queue [OF sb q sq])
qed

text \<open>Three runs in which one \<open>step()\<close> call does not converge: the first call of the run
  (level 0), the third (second step of the first interval of level 1) and the 17th (second
  step of the first queued task). Each run ends in \<open>NotConverged\<close>; the store is the one of
  the moment before the failing call: level 0 holds the reference point only, level 1 holds the
  reference point and one of the two points of its first interval, and level 3 holds the start
  point and one of the two points of the task.\<close>

theorem diverged_step_aborts_run_witness:
  "run (haltingIterator 1) [1] 1 1 3 (walker0 1)
     = Some (Inl (NotConverged,
         \<lparr>solutions = [[([0], 0)], [], [], []], errors = [[], [], []], refIdx = [], points = [],
          arcLength = \<lparr>wU = [0], wL = 2, wLen = 1, wCount = 1\<rparr>\<rparr>))
   \<and> run (haltingIterator 3) [1] 1 1 3 (walker0 1)
     = Some (Inl (NotConverged,
         secondStepLevel1\<lparr>arcLength := \<lparr>wU = [0], wL = 1, wLen = 1 / 2, wCount = 3\<rparr>\<rparr>))
   \<and> solutions secondStepLevel1 = [[([0], 0), ([0], 2)], [([0], 0), ([0], 1 / 2)], [], []]
   \<and> run (haltingIterator 17) [1] 1 1 3 (walker0 1)
     = Some (Inl (NotConverged,
         secondStepTask1\<lparr>arcLength := \<lparr>wU = [0], wL = 1 / 2, wLen = 1 / 4, wCount = 17\<rparr>\<rparr>))
   \<and> solutions secondStepTask1 ! 3
     = [([0], 0), ([0], 1 / 8), ([0], 1 / 4), ([0], 3 / 8), ([0], 1 / 2),
        ([0], 5 / 8), ([0], 3 / 4), ([0], 7 / 8), ([0], 1), ([0], 0), ([0], 1 / 4)]
   \<and> stepAndStore (haltingIterator 17) 3 secondStepTask1
     = Inl (NotConverged,
         secondStepTask1\<lparr>arcLength := \<lparr>wU = [0], wL = 1 / 2, wLen = 1 / 4, wCount = 17\<rparr>\<rparr>)"
proof -
  let ?s1 = "level0Start [1] (initial (haltingIterator 1) 3 (walker0 1))"
  let ?s0 = "\<lparr>solutions = [[([0], 0), ([0], 2)], [], [], []], errors = [[], [], []],
              refIdx = [], points = [],
              arcLength = \<lparr>wU = [0], wL = 2, wLen = 1, wCount = 1\<rparr>\<rparr>"
  have h1: "\<not> converged (haltingIterator 1) (step (haltingIterator 1) (arcLength ?s1))"
    by (simp add: haltingIterator_def bumpIterator_def level0Start_def initial_def walker0_def)
  have h2: "\<not> converged (haltingIterator 3) (step (haltingIterator 3) (arcLength secondStepLevel1))"
    by (simp add: haltingIterator_def bumpIterator_def secondStepLevel1_def)
  have h3: "\<not> converged (haltingIterator 17) (step (haltingIterator 17) (arcLength secondStepTask1))"
    by (simp add: haltingIterator_def bumpIterator_def secondStepTask1_def)
  have r1: "run (haltingIterator 1) [1] 1 1 3 (walker0 1)
      = Some (Inl (NotConverged, ?s1\<lparr>arcLength := step (haltingIterator 1) (arcLength ?s1)\<rparr>))"
    using diverged_step_aborts_run [where k = 0 and stp = 1 and Force = "[1]" and maxLevel = 3
        and ?a0.0 = "walker0 1" and dL = 1, OF h1,
        THEN conjunct2, THEN conjunct2, THEN conjunct1]
    by simp
  have r2: "run (haltingIterator 3) [1] 1 1 3 (walker0 1)
      = Some (Inl (NotConverged,
          secondStepLevel1\<lparr>arcLength := step (haltingIterator 3) (arcLength secondStepLevel1)\<rparr>))"
    using diverged_step_aborts_run [where k = 1 and stp = 1 and Force = "[1]" and maxLevel = 3
        and ?a0.0 = "walker0 1" and dL = 1 and ?s0.0 = ?s0 and L = 1 and sL = ?s0 and p = 0
        and sp = "levelStart (haltingIterator 3) [1] 1 1 ?s0"
        and start = "([0], 0)" and guess = "([0], 2)", OF h2,
        THEN conjunct2, THEN conjunct2, THEN conjunct2, THEN conjunct1]
    by (simp add: eval_defs haltingIterator_def levelStart_def intervalStart_def
          secondStepLevel1_def)
  have b: "build (haltingIterator 17) [1] 1 1 3 (walker0 1) = Inr builtA"
    by (simp add: eval_defs haltingIterator_def builtA_def)
  have r3: "run (haltingIterator 17) [1] 1 1 3 (walker0 1)
      = Some (Inl (NotConverged,
          secondStepTask1\<lparr>arcLength := step (haltingIterator 17) (arcLength secondStepTask1)\<rparr>))"
    using diverged_step_aborts_run [where k = 1 and stp = 1 and Force = "[1]" and maxLevel = 3
        and ?a0.0 = "walker0 1" and dL = 1 and sb = builtA and ?q1.0 = "[]" and level = 2
        and reflevel = 0 and pindex = 0 and ?q2.0 = "[(2, 1, 1)]" and sq = builtA
        and start = "([0], 0)" and guess = "([0], 2)", OF h3,
        THEN conjunct2, THEN conjunct2, THEN conjunct2, THEN conjunct2]
    by (simp add: b eval_defs haltingIterator_def taskStart_def builtA_def secondStepTask1_def)
  have r4: "stepAndStore (haltingIterator 17) 3 secondStepTask1
      = Inl (NotConverged,
          secondStepTask1\<lparr>arcLength := step (haltingIterator 17) (arcLength secondStepTask1)\<rparr>)"
    using diverged_step_aborts_run [where l = 3, OF h3, THEN conjunct1] by simp
  show ?thesis
    unfolding r1 r2 r3 r4
    by (simp add: haltingIterator_def bumpIterator_def level0Start_def initial_def walker0_def
          U0_def L0_def secondStepLevel1_def secondStepTask1_def eval_nat_numeral)
qed

end
